theory Spec2Isabelle
  imports Complex_Main "HOL-Library.Log_Nat"
begin

section \<open>Python values used by vbchart\<close>

text \<open>
  A Python \<open>str\<close> is a sequence of Unicode code points and \<open>len\<close> counts code points,
  so a string is a list of code points here (the block and box-drawing glyphs of the
  chart do not fit a byte).
\<close>

type_synonym pystr = "nat list"

abbreviation ESC :: nat where "ESC \<equiv> 27"
abbreviation LBR :: nat where "LBR \<equiv> 91"
abbreviation LM :: nat where "LM \<equiv> 109"
abbreviation SP :: nat where "SP \<equiv> 32"

definition asc :: "string \<Rightarrow> pystr" where
  "asc s = map of_char s"

datatype error = ZeroDivisionError | OverflowError | ValueError | TypeError | KeyError

definition bindE :: "error + 'a \<Rightarrow> ('a \<Rightarrow> error + 'b) \<Rightarrow> error + 'b" where
  "bindE m f = (case m of Inl e \<Rightarrow> Inl e | Inr x \<Rightarrow> f x)"

fun mapE :: "('a \<Rightarrow> error + 'b) \<Rightarrow> 'a list \<Rightarrow> error + 'b list" where
  "mapE f [] = Inr []"
| "mapE f (x # xs) = bindE (f x) (\<lambda>y. bindE (mapE f xs) (\<lambda>ys. Inr (y # ys)))"

subsection \<open>Floats\<close>

text \<open>
  A Python \<open>float\<close> is an IEEE 754 double: a finite number, an infinity or NaN. A finite
  double is the rational it denotes. The result of an arithmetic operation is the exact
  result rounded to the nearest double, ties to the even mantissa (\<open>rnd\<close>), and an
  infinity when the rounded magnitude reaches \<open>2^1024\<close> (\<open>fl\<close>). The comparisons with
  NaN are all false, as in Python. The sign of a zero is not kept: no comparison or
  rounding of the chart reads it.
\<close>

datatype pyfloat = Fin rat | PInf | NInf | NaN

text \<open>
  \<open>round(x)\<close> of a float, without digits, is the nearest integer, ties to the even one.
  The same rounding, on the mantissa, gives the nearest double.
\<close>

definition round_half_even :: "rat \<Rightarrow> int" where
  "round_half_even x =
     (let f = \<lfloor>x\<rfloor>; d = x - of_int f
      in if d < 1 / 2 then f else if 1 / 2 < d then f + 1
         else if even f then f else f + 1)"

text \<open>
  The binary exponent of a positive rational: \<open>2^e \<le> r < 2^(e+1)\<close>. The doubles around
  \<open>r\<close> are the multiples of \<open>2^(e-52)\<close> (53 bits of mantissa), and of \<open>2^(-1074)\<close> in the
  subnormal range, below \<open>2^(-1022)\<close>.
\<close>

definition expo :: "rat \<Rightarrow> int" where
  "expo r = (if 1 \<le> r then bitlen \<lfloor>r\<rfloor> - 1 else - bitlen (\<lceil>1 / r\<rceil> - 1))"

definition quantum :: "rat \<Rightarrow> rat" where
  "quantum r = 2 powi (max (expo \<bar>r\<bar>) (- 1022) - 52)"

definition rnd :: "rat \<Rightarrow> rat" where
  "rnd r = (if r = 0 then 0 else of_int (round_half_even (r / quantum r)) * quantum r)"

definition fl :: "rat \<Rightarrow> pyfloat" where
  "fl r = (if 2 powi 1024 \<le> rnd r then PInf
           else if rnd r \<le> - (2 powi 1024) then NInf else Fin (rnd r))"

fun flt :: "pyfloat \<Rightarrow> pyfloat \<Rightarrow> bool" where
  "flt NaN b = False"
| "flt a NaN = False"
| "flt (Fin a) (Fin b) = (a < b)"
| "flt (Fin a) PInf = True"
| "flt NInf (Fin b) = True"
| "flt NInf PInf = True"
| "flt a b = False"

fun fle :: "pyfloat \<Rightarrow> pyfloat \<Rightarrow> bool" where
  "fle NaN b = False"
| "fle a NaN = False"
| "fle (Fin a) (Fin b) = (a \<le> b)"
| "fle NInf b = True"
| "fle a PInf = True"
| "fle a b = False"

text \<open>The sign of a non-NaN float: \<open>-1\<close>, \<open>0\<close> or \<open>1\<close>.\<close>

fun fsgn :: "pyfloat \<Rightarrow> int" where
  "fsgn (Fin r) = (if r < 0 then - 1 else if r = 0 then 0 else 1)"
| "fsgn PInf = 1"
| "fsgn NInf = - 1"
| "fsgn NaN = 0"

definition inf_of :: "int \<Rightarrow> pyfloat" where
  "inf_of s = (if s < 0 then NInf else PInf)"

fun fmul :: "pyfloat \<Rightarrow> pyfloat \<Rightarrow> pyfloat" where
  "fmul NaN b = NaN"
| "fmul a NaN = NaN"
| "fmul (Fin a) (Fin b) = fl (a * b)"
| "fmul a b = (if fsgn a * fsgn b = 0 then NaN else inf_of (fsgn a * fsgn b))"

text \<open>\<open>a / b\<close> on floats raises ZeroDivisionError when \<open>b\<close> is zero.\<close>

fun fdiv :: "pyfloat \<Rightarrow> pyfloat \<Rightarrow> error + pyfloat" where
  "fdiv NaN (Fin b) = (if b = 0 then Inl ZeroDivisionError else Inr NaN)"
| "fdiv NaN b = Inr NaN"
| "fdiv a NaN = Inr NaN"
| "fdiv (Fin a) (Fin b) = (if b = 0 then Inl ZeroDivisionError else Inr (fl (a / b)))"
| "fdiv (Fin a) b = Inr (Fin 0)"
| "fdiv a (Fin b) =
     (if b = 0 then Inl ZeroDivisionError else Inr (inf_of (fsgn a * fsgn (Fin b))))"
| "fdiv a b = Inr NaN"

fun fabs :: "pyfloat \<Rightarrow> pyfloat" where
  "fabs (Fin r) = Fin \<bar>r\<bar>"
| "fabs PInf = PInf"
| "fabs NInf = PInf"
| "fabs NaN = NaN"

text \<open>
  The builtins \<open>min(a, b)\<close> and \<open>max(a, b)\<close> keep the first argument unless the second
  is strictly smaller (larger); \<open>max\<close> over an iterable does the same from its first item.
\<close>

definition py_min :: "pyfloat \<Rightarrow> pyfloat \<Rightarrow> pyfloat" where
  "py_min a b = (if flt b a then b else a)"

definition py_max :: "pyfloat \<Rightarrow> pyfloat \<Rightarrow> pyfloat" where
  "py_max a b = (if flt a b then b else a)"

fun py_max_from :: "pyfloat \<Rightarrow> pyfloat list \<Rightarrow> pyfloat" where
  "py_max_from cur [] = cur"
| "py_max_from cur (x # xs) = py_max_from (py_max cur x) xs"

text \<open>\<open>round(x)\<close> raises OverflowError on an infinity and ValueError on NaN.\<close>

fun py_round :: "pyfloat \<Rightarrow> error + int" where
  "py_round (Fin r) = Inr (round_half_even r)"
| "py_round PInf = Inl OverflowError"
| "py_round NInf = Inl OverflowError"
| "py_round NaN = Inl ValueError"

text \<open>
  \<open>Number = Union[int, float]\<close>; \<open>float(v)\<close> of an int is the nearest double, and raises
  OverflowError when the int is too large for one.
\<close>

datatype number = NInt int | NFloat pyfloat

fun to_float :: "number \<Rightarrow> error + pyfloat" where
  "to_float (NFloat x) = Inr x"
| "to_float (NInt i) =
     (case fl (of_int i) of Fin x \<Rightarrow> Inr (Fin x) | _ \<Rightarrow> Inl OverflowError)"

section \<open>The chart\<close>

text \<open>The keyword arguments of the colour callback.\<close>

record cell_ctx =
  value_left :: pyfloat
  value_right :: pyfloat
  pct_left :: pyfloat
  pct_right :: pyfloat
  row_kind :: pystr
  row :: int
  glyph :: pystr

record chart =
  values_in :: "number list"
  title :: "pystr option"
  width :: "int option"
  max_value :: "pyfloat option"
  clamp_to_100 :: bool
  show_y_axis :: bool
  show_rule :: bool
  unicode :: bool
  y_label_fmt :: "pystr option"
  border_enabled :: bool
  border_sgr :: "pystr option"
  border_style_name :: pystr
  label_sgr :: "pystr option"
  axis_sgr :: "pystr option"
  bar_sgr :: "pystr option"
  value_color_cb :: "(cell_ctx \<Rightarrow> pystr option) option"

text \<open>
  What the renderer takes from outside the repository: the column count of the terminal
  (\<open>get_terminal_size(fallback=(80, 24)).columns\<close>) and the \<open>%\<close> operator of strings
  (\<open>fmt % v\<close>), which can raise.
\<close>

record env =
  term_columns :: int
  str_mod :: "pystr \<Rightarrow> number \<Rightarrow> error + pystr"

definition term_cols :: "env \<Rightarrow> chart \<Rightarrow> int" where
  "term_cols E self =
     (case width self of Some w \<Rightarrow> max 20 w | None \<Rightarrow> max 20 (term_columns E))"

definition clamp_int :: "int \<Rightarrow> int \<Rightarrow> int \<Rightarrow> int" where
  "clamp_int x lo hi = (if x < lo then lo else if hi < x then hi else x)"

definition to_signed_steps_5pct :: "chart \<Rightarrow> pyfloat \<Rightarrow> pyfloat \<Rightarrow> error + int" where
  "to_signed_steps_5pct self v denom =
     (if fle denom (Fin 0) then Inr 0
      else bindE (fdiv v denom) (\<lambda>q.
        let pct = fmul q (Fin 100);
            pct = (if clamp_to_100 self then py_max (Fin (- 100)) (py_min (Fin 100) pct)
                   else pct)
        in bindE (fdiv pct (Fin 5)) (\<lambda>x.
           bindE (py_round x) (\<lambda>steps. Inr (clamp_int steps (- 20) 20)))))"

section \<open>Escape-sequence helpers (class AnsiHelp)\<close>

text \<open>
  The loop of \<open>truncate_visible\<close>, on the part of \<open>s\<close> from index \<open>i\<close> on: \<open>vis\<close> is
  the count of visible characters emitted so far, the result is what is appended to
  \<open>out\<close> from here on. At \<open>ESC [\<close> the inner loop looks for the next \<open>m\<close>: when there
  is one the whole sequence is copied, otherwise the loop stops.
\<close>

function trunc_loop :: "pystr \<Rightarrow> int \<Rightarrow> int \<Rightarrow> pystr" where
  "trunc_loop [] vis max_cols = []"
| "trunc_loop (c # cs) vis max_cols =
     (if \<not> vis < max_cols then []
      else if c = ESC \<and> cs \<noteq> [] \<and> hd cs = LBR then
        (if dropWhile (\<lambda>x. x \<noteq> LM) (tl cs) \<noteq> []
         then c # hd cs # takeWhile (\<lambda>x. x \<noteq> LM) (tl cs) @ [LM]
                @ trunc_loop (tl (dropWhile (\<lambda>x. x \<noteq> LM) (tl cs))) vis max_cols
         else [])
      else c # trunc_loop cs (vis + 1) max_cols)"
  by pat_completeness auto
termination
proof (relation "measure (\<lambda>(s, vis, max_cols). length s)", goal_cases)
  case 1
  show ?case by simp
next
  case (2 c cs vis max_cols)
  have "length (tl (dropWhile (\<lambda>x. x \<noteq> LM) (tl cs))) \<le> length (dropWhile (\<lambda>x. x \<noteq> LM) (tl cs))"
    by simp
  also have "\<dots> \<le> length (tl cs)"
    by (rule length_dropWhile_le)
  also have "\<dots> \<le> length cs"
    by simp
  finally show ?case by simp
next
  case 3
  show ?case by simp
qed

definition truncate_visible :: "pystr \<Rightarrow> int \<Rightarrow> pystr" where
  "truncate_visible s max_cols = (if max_cols \<le> 0 then [] else trunc_loop s 0 max_cols)"

definition sgr_wrap :: "pystr option \<Rightarrow> pystr \<Rightarrow> pystr" where
  "sgr_wrap sgr text =
     (case sgr of
        None \<Rightarrow> text
      | Some p \<Rightarrow> if p = [] then text else [ESC, LBR] @ p @ [LM] @ text @ [ESC, LBR, 48, LM])"

text \<open>
  The loop of \<open>_visible_len\<close>, on the part of \<open>s\<close> from index \<open>i\<close> on: the characters
  appended to \<open>out\<close>. At \<open>ESC [\<close> the index moves past the next \<open>m\<close>, or past the end of
  the string when there is none.
\<close>

function visible_chars :: "pystr \<Rightarrow> pystr" where
  "visible_chars [] = []"
| "visible_chars (c # cs) =
     (if c = ESC \<and> cs \<noteq> [] \<and> hd cs = LBR
      then visible_chars (drop 1 (dropWhile (\<lambda>x. x \<noteq> LM) (tl cs)))
      else c # visible_chars cs)"
  by pat_completeness auto
termination
proof (relation "measure length", goal_cases)
  case 1
  show ?case by simp
next
  case (2 c cs)
  have "length (drop 1 (dropWhile (\<lambda>x. x \<noteq> LM) (tl cs))) \<le> length (dropWhile (\<lambda>x. x \<noteq> LM) (tl cs))"
    by simp
  also have "\<dots> \<le> length (tl cs)"
    by (rule length_dropWhile_le)
  also have "\<dots> \<le> length cs"
    by simp
  finally show ?case by simp
next
  case 3
  show ?case by simp
qed

definition visible_len :: "pystr \<Rightarrow> int" where
  "visible_len s = int (length (visible_chars s))"

section \<open>Glyphs, labels and cell styling\<close>

text \<open>
  The two glyph tables are dictionaries keyed by the pair of band values; a key that is
  not in the table raises KeyError. Without \<open>unicode\<close> the ASCII glyphs are used.
\<close>

definition ascii_glyph :: "int \<Rightarrow> int \<Rightarrow> pystr" where
  "ascii_glyph l_steps r_steps =
     (let l_on = 0 < l_steps; r_on = 0 < r_steps
      in if l_on \<and> r_on then [35] else if l_on then [76] else if r_on then [82] else [SP])"

definition pos_table :: "(int \<times> int) \<rightharpoonup> pystr" where
  "pos_table = map_of
     [((0, 0), [SP]), ((0, 1), [0x2597]), ((0, 2), [0x2590]),
      ((1, 0), [0x2596]), ((1, 1), [0x2584]), ((1, 2), [0x259F]),
      ((2, 0), [0x258C]), ((2, 1), [0x2599]), ((2, 2), [0x2588])]"

definition neg_table :: "(int \<times> int) \<rightharpoonup> pystr" where
  "neg_table = map_of
     [((0, 0), [SP]), ((0, 1), [0x259D]), ((0, 2), [0x2590]),
      ((1, 0), [0x2598]), ((1, 1), [0x2580]), ((1, 2), [0x259C]),
      ((2, 0), [0x258C]), ((2, 1), [0x259B]), ((2, 2), [0x2588])]"

definition glyph_pos :: "chart \<Rightarrow> int \<Rightarrow> int \<Rightarrow> error + pystr" where
  "glyph_pos self l_steps r_steps =
     (if \<not> unicode self then Inr (ascii_glyph l_steps r_steps)
      else case pos_table (l_steps, r_steps) of None \<Rightarrow> Inl KeyError | Some g \<Rightarrow> Inr g)"

definition glyph_neg :: "chart \<Rightarrow> int \<Rightarrow> int \<Rightarrow> error + pystr" where
  "glyph_neg self l_steps r_steps =
     (if \<not> unicode self then Inr (ascii_glyph l_steps r_steps)
      else case neg_table (l_steps, r_steps) of None \<Rightarrow> Inl KeyError | Some g \<Rightarrow> Inr g)"

definition default_forced_fmt :: "chart \<Rightarrow> pystr" where
  "default_forced_fmt self = (case y_label_fmt self of Some f \<Rightarrow> f | None \<Rightarrow> asc ''%+d '')"

text \<open>\<open>str(n)\<close> of an int, and \<open>s.rjust(w)\<close>.\<close>

function nat_digits :: "nat \<Rightarrow> pystr" where
  "nat_digits n = (if n < 10 then [48 + n] else nat_digits (n div 10) @ [48 + n mod 10])"
  by pat_completeness auto
termination
  by (relation "measure id") auto

definition str_int :: "int \<Rightarrow> pystr" where
  "str_int i = (if i < 0 then 45 # nat_digits (nat (- i)) else nat_digits (nat i))"

definition rjust :: "pystr \<Rightarrow> int \<Rightarrow> pystr" where
  "rjust s w = replicate (nat (w - int (length s))) SP @ s"

definition render_y_label :: "env \<Rightarrow> chart \<Rightarrow> pystr \<Rightarrow> int \<Rightarrow> pyfloat \<Rightarrow> bool \<Rightarrow> error + pystr" where
  "render_y_label E self kind r denom forced =
     (if \<not> forced then
        (if kind = asc ''zero'' then Inr (asc ''  0% '')
         else let sign = (if kind = asc ''pos'' then 1 else - 1)
              in Inr (rjust (str_int (sign * r * 10)) 3 @ asc ''% ''))
      else
        let fmt = default_forced_fmt self
        in if kind = asc ''zero'' then str_mod E fmt (NInt 0)
           else let sign = (if kind = asc ''pos'' then 1 else - 1)
                in bindE (fdiv (fmul denom (Fin (of_int r))) (Fin 10)) (\<lambda>q.
                   str_mod E fmt (NFloat (fmul (Fin sign) q))))"

text \<open>
  \<open>_style_cell\<close>: the callback, when there is one, decides the SGR parameter of the
  cell; \<open>(value / denom) if denom else 0.0\<close> guards the division.
\<close>

definition frac_of :: "pyfloat \<Rightarrow> pyfloat \<Rightarrow> error + pyfloat" where
  "frac_of v denom = (if denom = Fin 0 then Inr (Fin 0) else fdiv v denom)"

definition style_cell ::
  "chart \<Rightarrow> pystr \<Rightarrow> pyfloat \<Rightarrow> pyfloat \<Rightarrow> pyfloat \<Rightarrow> pystr \<Rightarrow> int \<Rightarrow> error + pystr" where
  "style_cell self g vl vr denom kind r =
     (case value_color_cb self of
        Some cb \<Rightarrow>
          bindE (frac_of vl denom) (\<lambda>pl.
          bindE (frac_of vr denom) (\<lambda>pr.
            Inr (sgr_wrap
                  (cb \<lparr>value_left = vl, value_right = vr, pct_left = pl, pct_right = pr,
                       row_kind = kind, row = r, glyph = g\<rparr>) g)))
      | None \<Rightarrow> Inr (sgr_wrap (bar_sgr self) g))"

section \<open>The border\<close>

record border_cs =
  cs_tl :: pystr
  cs_tr :: pystr
  cs_bl :: pystr
  cs_br :: pystr
  cs_h :: pystr
  cs_v :: pystr

definition border_chars :: "chart \<Rightarrow> border_cs" where
  "border_chars self =
     (if border_style_name self = asc ''double''
      then \<lparr>cs_tl = [0x2554], cs_tr = [0x2557], cs_bl = [0x255A], cs_br = [0x255D],
            cs_h = [0x2550], cs_v = [0x2551]\<rparr>
      else if border_style_name self = asc ''ascii''
      then \<lparr>cs_tl = [43], cs_tr = [43], cs_bl = [43], cs_br = [43], cs_h = [45], cs_v = [124]\<rparr>
      else \<lparr>cs_tl = [0x250C], cs_tr = [0x2510], cs_bl = [0x2514], cs_br = [0x2518],
            cs_h = [0x2500], cs_v = [0x2502]\<rparr>)"

text \<open>\<open>s * n\<close> on a string: empty when \<open>n\<close> is not positive.\<close>

definition str_times :: "pystr \<Rightarrow> int \<Rightarrow> pystr" where
  "str_times s n = concat (replicate (nat n) s)"

definition add_border :: "chart \<Rightarrow> pystr list \<Rightarrow> pystr list" where
  "add_border self lines =
     (if \<not> border_enabled self \<or> lines = [] then lines
      else
        let cs = border_chars self;
            content_w = Max (set (map visible_len lines));
            top_plain = cs_tl cs @ str_times (cs_h cs) (content_w + 2) @ cs_tr cs;
            bot_plain = cs_bl cs @ str_times (cs_h cs) (content_w + 2) @ cs_br cs;
            left_v = sgr_wrap (border_sgr self) (cs_v cs);
            right_v = sgr_wrap (border_sgr self) (cs_v cs)
        in [sgr_wrap (border_sgr self) top_plain]
           @ map (\<lambda>ln. left_v @ [SP] @ ln @ str_times [SP] (content_w - visible_len ln)
                        @ [SP] @ right_v) lines
           @ [sgr_wrap (border_sgr self) bot_plain])"

section \<open>Rendering (\<open>__str__\<close>)\<close>

text \<open>\<open>max\<close> over a generator raises ValueError when there is no item.\<close>

fun py_max_list :: "pyfloat list \<Rightarrow> error + pyfloat" where
  "py_max_list [] = Inl ValueError"
| "py_max_list (x # xs) = Inr (py_max_from x xs)"

text \<open>The denominator: \<open>max_value\<close> when it is given, else the largest magnitude; \<open>1.0\<close>
  when that is not positive.\<close>

definition resolve_denom :: "chart \<Rightarrow> pyfloat list \<Rightarrow> error + pyfloat" where
  "resolve_denom self vals =
     bindE (case max_value self of Some m \<Rightarrow> Inr m | None \<Rightarrow> py_max_list (map fabs vals))
       (\<lambda>denom. Inr (if fle denom (Fin 0) then Fin 1 else denom))"

text \<open>Packing into (left, right): an odd count pads the last right value with \<open>0.0\<close>.\<close>

fun pack :: "pyfloat list \<Rightarrow> pyfloat list \<times> pyfloat list" where
  "pack [] = ([], [])"
| "pack [a] = ([a], [Fin 0])"
| "pack (a # b # rest) = (case pack rest of (l, r) \<Rightarrow> (a # l, b # r))"

definition max_neg_steps_of :: "int list \<Rightarrow> int" where
  "max_neg_steps_of steps = fold (\<lambda>s m. if s < 0 then max m (- s) else m) steps 0"

definition neg_rows_of :: "int list \<Rightarrow> int" where
  "neg_rows_of steps = \<lceil>(of_int (max_neg_steps_of steps) :: rat) / 2\<rceil>"

definition y_axis_width :: "env \<Rightarrow> chart \<Rightarrow> pyfloat \<Rightarrow> bool \<Rightarrow> int \<Rightarrow> error + int" where
  "y_axis_width E self denom forced neg_rows =
     (if show_y_axis self then
        bindE (mapE (\<lambda>r. render_y_label E self (asc ''pos'') r denom forced) (rev [1..10]))
          (\<lambda>labels.
        bindE (if 0 < neg_rows then
                 bindE (render_y_label E self (asc ''zero'') 0 denom forced) (\<lambda>z.
                 bindE (mapE (\<lambda>r. render_y_label E self (asc ''neg'') r denom forced)
                          [1..neg_rows]) (\<lambda>ns.
                 Inr (labels @ [z] @ ns)))
               else Inr labels)
          (\<lambda>labels. Inr (Max (set (map (\<lambda>s. int (length s)) labels)))))
      else Inr 0)"

definition title_lines :: "chart \<Rightarrow> int \<Rightarrow> pystr list" where
  "title_lines self cols =
     (case title self of
        None \<Rightarrow> []
      | Some t \<Rightarrow>
          if t = [] then []
          else [sgr_wrap (label_sgr self) (truncate_visible t cols)]
               @ (if show_rule self
                  then [sgr_wrap (axis_sgr self)
                          (str_times (if unicode self then [0x2500] else [45])
                             (min cols (max 10 (int (length t)))))]
                  else []))"

text \<open>The label part of a row: empty without the y axis.\<close>

definition label_part :: "env \<Rightarrow> chart \<Rightarrow> pystr \<Rightarrow> int \<Rightarrow> pyfloat \<Rightarrow> bool \<Rightarrow> int \<Rightarrow> error + pystr list" where
  "label_part E self kind r denom forced y_w =
     (if show_y_axis self
      then bindE (render_y_label E self kind r denom forced)
             (\<lambda>lbl. Inr [sgr_wrap (label_sgr self) (rjust lbl y_w)])
      else Inr [])"

type_synonym column = "pyfloat \<times> pyfloat \<times> int \<times> int"

definition pos_cell :: "chart \<Rightarrow> pyfloat \<Rightarrow> int \<Rightarrow> column \<Rightarrow> error + pystr" where
  "pos_cell self denom r col =
     (case col of (lv, rv, ls, rs) \<Rightarrow>
        let steps_below = (r - 1) * 2;
            lmag = (if 0 < ls then ls else 0);
            rmag = (if 0 < rs then rs else 0);
            l_in_row = clamp_int (lmag - steps_below) 0 2;
            r_in_row = clamp_int (rmag - steps_below) 0 2
        in bindE (glyph_pos self l_in_row r_in_row)
             (\<lambda>g. style_cell self g lv rv denom (asc ''pos'') r))"

definition neg_cell :: "chart \<Rightarrow> pyfloat \<Rightarrow> int \<Rightarrow> column \<Rightarrow> error + pystr" where
  "neg_cell self denom r col =
     (case col of (lv, rv, ls, rs) \<Rightarrow>
        let steps_below = (r - 1) * 2;
            lmag = (if ls < 0 then - ls else 0);
            rmag = (if rs < 0 then - rs else 0);
            l_in_row = clamp_int (lmag - steps_below) 0 2;
            r_in_row = clamp_int (rmag - steps_below) 0 2
        in bindE (glyph_neg self l_in_row r_in_row)
             (\<lambda>g. style_cell self g lv rv denom (asc ''neg'') r))"

definition pos_row ::
  "env \<Rightarrow> chart \<Rightarrow> int \<Rightarrow> pyfloat \<Rightarrow> bool \<Rightarrow> int \<Rightarrow> column list \<Rightarrow> int \<Rightarrow> error + pystr" where
  "pos_row E self cols denom forced y_w columns r =
     bindE (label_part E self (asc ''pos'') r denom forced y_w) (\<lambda>lbl.
     bindE (mapE (pos_cell self denom r) columns) (\<lambda>cells.
     Inr (truncate_visible (concat (lbl @ cells)) cols)))"

definition neg_row ::
  "env \<Rightarrow> chart \<Rightarrow> int \<Rightarrow> pyfloat \<Rightarrow> bool \<Rightarrow> int \<Rightarrow> column list \<Rightarrow> int \<Rightarrow> error + pystr" where
  "neg_row E self cols denom forced y_w columns r =
     bindE (label_part E self (asc ''neg'') r denom forced y_w) (\<lambda>lbl.
     bindE (mapE (neg_cell self denom r) columns) (\<lambda>cells.
     Inr (truncate_visible (concat (lbl @ cells)) cols)))"

text \<open>
  The lines under the positive rows: the zero axis and the negative rows when there are
  negative rows, a bare baseline otherwise. \<open>columns\<close> is the \<open>zip\<close> of the four
  truncated lists, which have one length, so its length is \<open>len(left_vals)\<close>.
\<close>

definition lower_lines ::
  "env \<Rightarrow> chart \<Rightarrow> int \<Rightarrow> pyfloat \<Rightarrow> bool \<Rightarrow> int \<Rightarrow> column list \<Rightarrow> int \<Rightarrow> error + pystr list" where
  "lower_lines E self cols denom forced y_w columns neg_rows =
     (let axis_char = (if unicode self then [0x2500] else [45]);
          axis = sgr_wrap (axis_sgr self) (str_times axis_char (int (length columns)))
      in if 0 < neg_rows then
           bindE (label_part E self (asc ''zero'') 0 denom forced y_w) (\<lambda>lbl0.
           bindE (mapE (neg_row E self cols denom forced y_w columns) [1..neg_rows]) (\<lambda>ns.
           Inr (truncate_visible (concat (lbl0 @ [axis])) cols # ns)))
         else
           Inr [truncate_visible
                  (concat ((if show_y_axis self then [str_times [SP] y_w] else []) @ [axis]))
                  cols])"

definition content_lines :: "env \<Rightarrow> chart \<Rightarrow> pyfloat list \<Rightarrow> error + pystr list" where
  "content_lines E self vals =
     (let cols = term_cols E self
      in bindE (resolve_denom self vals) (\<lambda>denom.
         case pack vals of (left_vals, right_vals) \<Rightarrow>
         bindE (mapE (\<lambda>v. to_signed_steps_5pct self v denom) left_vals) (\<lambda>left_steps_total.
         bindE (mapE (\<lambda>v. to_signed_steps_5pct self v denom) right_vals) (\<lambda>right_steps_total.
         let neg_rows = neg_rows_of (left_steps_total @ right_steps_total);
             forced_labels = (max_value self \<noteq> None \<or> y_label_fmt self \<noteq> None)
         in bindE (y_axis_width E self denom forced_labels neg_rows) (\<lambda>y_w.
            let max_cols = max 1 (cols - y_w);
                columns = zip (take (nat max_cols) left_vals)
                            (zip (take (nat max_cols) right_vals)
                               (zip (take (nat max_cols) left_steps_total)
                                    (take (nat max_cols) right_steps_total)))
            in bindE (mapE (pos_row E self cols denom forced_labels y_w columns) (rev [1..10]))
                 (\<lambda>pos_lines.
               bindE (lower_lines E self cols denom forced_labels y_w columns neg_rows)
                 (\<lambda>lower.
               Inr (title_lines self cols @ pos_lines @ lower))))))))"

text \<open>\<open>'\n'.join(lines)\<close>.\<close>

fun join_nl :: "pystr list \<Rightarrow> pystr" where
  "join_nl [] = []"
| "join_nl [l] = l"
| "join_nl (l # ls) = l @ [10] @ join_nl ls"

definition render :: "env \<Rightarrow> chart \<Rightarrow> error + pystr" where
  "render E self =
     bindE (mapE to_float (values_in self)) (\<lambda>vals.
       if vals = [] then Inr (asc ''(no data)'')
       else bindE (content_lines E self vals) (\<lambda>lines.
            Inr (join_nl (add_border self lines))))"

text \<open>The chart as the dataclass constructs it from the values alone: every default.\<close>

definition default_chart :: "number list \<Rightarrow> chart" where
  "default_chart vs =
     \<lparr>values_in = vs, title = None, width = None, max_value = None, clamp_to_100 = True,
      show_y_axis = True, show_rule = True, unicode = True, y_label_fmt = None,
      border_enabled = False, border_sgr = None, border_style_name = asc ''single'',
      label_sgr = None, axis_sgr = None, bar_sgr = None, value_color_cb = None\<rparr>"

definition SetBorder :: "chart \<Rightarrow> bool \<Rightarrow> pystr option \<Rightarrow> pystr \<Rightarrow> chart" where
  "SetBorder self enabled sgr charset =
     self\<lparr>border_enabled := enabled, border_sgr := sgr, border_style_name := charset\<rparr>"

text \<open>The chart of the scenario \<open>[100, -100]\<close>: every default, and a width of 80 columns.\<close>

definition scen :: chart where
  "scen = (default_chart [NInt 100, NInt (- 100)])\<lparr>width := Some 80\<rparr>"

section \<open>Styled text, as the specification speaks of it\<close>

text \<open>
  A text with embedded styling is a sequence of plain characters and complete
  sequences \<open>ESC [ params m\<close>. A plain character is any character but ESC; the
  parameter string of a sequence holds no \<open>m\<close>. The visible characters of the text are
  its plain ones.
\<close>

datatype tok = Plain nat | Sgr pystr

fun flat :: "tok \<Rightarrow> pystr" where
  "flat (Plain c) = [c]"
| "flat (Sgr ps) = [ESC, LBR] @ ps @ [LM]"

definition styled :: "tok list \<Rightarrow> pystr" where
  "styled ts = concat (map flat ts)"

fun tok_ok :: "tok \<Rightarrow> bool" where
  "tok_ok (Plain c) = (c \<noteq> ESC)"
| "tok_ok (Sgr ps) = (LM \<notin> set ps)"

fun plain_chars :: "tok list \<Rightarrow> pystr" where
  "plain_chars [] = []"
| "plain_chars (Plain c # ts) = c # plain_chars ts"
| "plain_chars (Sgr ps # ts) = plain_chars ts"

text \<open>
  No partial escape sequence: every opener \<open>ESC [\<close> in the text is followed, somewhere
  after it, by the closing \<open>m\<close>.
\<close>

fun escapes_closed :: "pystr \<Rightarrow> bool" where
  "escapes_closed [] = True"
| "escapes_closed (c # cs) =
     ((c = ESC \<and> cs \<noteq> [] \<and> hd cs = LBR \<longrightarrow> LM \<in> set (tl cs)) \<and> escapes_closed cs)"

text \<open>An SGR parameter string as a caller supplies it: it holds no \<open>m\<close>.\<close>

fun sgr_ok :: "pystr option \<Rightarrow> bool" where
  "sgr_ok None = True"
| "sgr_ok (Some p) = (LM \<notin> set p)"

section \<open>Rounding to doubles\<close>

lemma rhe_cases:
  "round_half_even x = \<lfloor>x\<rfloor> \<or> (round_half_even x = \<lfloor>x\<rfloor> + 1 \<and> of_int \<lfloor>x\<rfloor> < x)"
  unfolding round_half_even_def Let_def by (auto split: if_splits)

lemma rhe_ge: "of_int n \<le> x \<Longrightarrow> n \<le> round_half_even x"
proof -
  assume "of_int n \<le> x"
  then have "n \<le> \<lfloor>x\<rfloor>" by (simp add: le_floor_iff)
  with rhe_cases [of x] show ?thesis by linarith
qed

lemma rhe_le: "x \<le> of_int n \<Longrightarrow> round_half_even x \<le> n"
proof -
  assume h: "x \<le> of_int n"
  then have f: "\<lfloor>x\<rfloor> \<le> n" by (simp add: floor_le_iff)
  from rhe_cases [of x] show ?thesis
  proof
    assume "round_half_even x = \<lfloor>x\<rfloor>"
    with f show ?thesis by simp
  next
    assume a: "round_half_even x = \<lfloor>x\<rfloor> + 1 \<and> of_int \<lfloor>x\<rfloor> < x"
    with h have "(of_int \<lfloor>x\<rfloor> :: rat) < of_int n" by linarith
    then have "\<lfloor>x\<rfloor> < n" by simp
    with a show ?thesis by simp
  qed
qed

lemma rhe_int: "round_half_even (of_int n) = n"
  by (simp add: round_half_even_def)

lemma pow2_int: "0 \<le> k \<Longrightarrow> (2::rat) powi k = of_int (2 ^ nat k)"
  by (simp add: power_int_nonneg_exp)

lemma pow2_split: "(2::rat) powi (a + b) = 2 powi a * 2 powi b"
  by (rule power_int_add) simp

lemma pow2_mono: "a \<le> b \<Longrightarrow> (2::rat) powi a \<le> 2 powi b"
  by (rule power_int_increasing) simp_all

lemma pow2_less_exp: "(2::rat) powi a < 2 powi b \<Longrightarrow> a < b"
proof (rule ccontr)
  assume l: "(2::rat) powi a < 2 powi b" and "\<not> a < b"
  then have "b \<le> a" by simp
  then have "(2::rat) powi b \<le> 2 powi a" by (rule pow2_mono)
  with l show False by simp
qed

lemma pow2_inv: "(2::rat) powi (- j) * 2 powi j = 1"
  using pow2_split [of "- j" j] by simp

lemma pow2_less_inv: "a * 2 powi j < 1 \<Longrightarrow> a < (2::rat) powi (- j)"
proof -
  assume "a * 2 powi j < 1"
  then have "a * 2 powi j < 2 powi (- j) * 2 powi j" by (simp only: pow2_inv)
  then show ?thesis by (simp only: mult_less_cancel_right_pos zero_less_power_int zero_less_numeral)
qed

lemma pow2_le_inv: "1 \<le> a * 2 powi j \<Longrightarrow> (2::rat) powi (- j) \<le> a"
proof -
  assume "1 \<le> a * 2 powi j"
  then have "2 powi (- j) * 2 powi j \<le> a * 2 powi j" by (simp only: pow2_inv)
  then show ?thesis by (simp only: mult_le_cancel_right_pos zero_less_power_int zero_less_numeral)
qed

lemma expo_bounds:
  assumes "0 < r"
  shows "2 powi (expo r) \<le> r \<and> r < 2 powi (expo r + 1)"
proof (cases "1 \<le> r")
  case True
  define m where "m = \<lfloor>r\<rfloor>"
  have m: "0 < m" using True by (simp add: m_def)
  have e: "expo r = bitlen m - 1" using True by (simp add: expo_def m_def)
  have b1: "1 \<le> bitlen m" using m bitlen_eq_zero_iff [of m] bitlen_nonneg [of m] by linarith
  from bitlen_bounds [OF m] have lo: "2 ^ nat (bitlen m - 1) \<le> m" and hi: "m < 2 ^ nat (bitlen m)"
    by simp_all
  have "(2::rat) powi (bitlen m - 1) = of_int (2 ^ nat (bitlen m - 1))"
    using b1 by (intro pow2_int) simp
  also have "\<dots> \<le> of_int m" using lo by (simp only: of_int_le_iff)
  also have "\<dots> \<le> r" by (simp add: m_def)
  finally have 1: "2 powi (expo r) \<le> r" by (simp add: e)
  from hi have "m + 1 \<le> 2 ^ nat (bitlen m)" by simp
  then have "(of_int (m + 1) :: rat) \<le> of_int (2 ^ nat (bitlen m))" by (simp only: of_int_le_iff)
  moreover have "r < of_int (m + 1)" unfolding m_def by linarith
  moreover have "(2::rat) powi (bitlen m) = of_int (2 ^ nat (bitlen m))"
    using b1 by (intro pow2_int) simp
  ultimately have "r < 2 powi (expo r + 1)" by (simp add: e)
  with 1 show ?thesis ..
next
  case False
  with assms have r1: "r < 1" by simp
  define m where "m = \<lceil>1 / r\<rceil>"
  have "1 < 1 / r" using assms r1 by (simp add: field_simps)
  then have m2: "2 \<le> m" unfolding m_def by linarith
  define k where "k = bitlen (m - 1)"
  have e: "expo r = - k" using False by (simp add: expo_def m_def k_def)
  have m1: "0 < m - 1" using m2 by simp
  have k1: "1 \<le> k" using m1 bitlen_eq_zero_iff [of "m - 1"] bitlen_nonneg [of "m - 1"]
    unfolding k_def by linarith
  from bitlen_bounds [OF m1] have lo: "2 ^ nat (k - 1) \<le> m - 1" and hi: "m - 1 < 2 ^ nat k"
    by (simp_all add: k_def)
  have pk: "(2::rat) powi k = of_int (2 ^ nat k)" using k1 by (intro pow2_int) simp
  have pk1: "(2::rat) powi (k - 1) = of_int (2 ^ nat (k - 1))" using k1 by (intro pow2_int) simp
  from hi have "m \<le> 2 ^ nat k" by simp
  then have "(of_int m :: rat) \<le> 2 powi k" by (simp only: pk of_int_le_iff)
  moreover have "1 / r \<le> of_int m" unfolding m_def by linarith
  ultimately have "1 / r \<le> 2 powi k" by linarith
  then have "1 \<le> r * 2 powi k" using assms by (simp add: field_simps)
  then have "2 powi (- k) \<le> r"
    by (rule pow2_le_inv)
  then have 1: "2 powi (expo r) \<le> r" by (simp add: e)
  from lo have "(2::rat) powi (k - 1) \<le> of_int (m - 1)" by (simp only: pk1 of_int_le_iff)
  moreover have "of_int (m - 1) < 1 / r" unfolding m_def by linarith
  ultimately have "2 powi (k - 1) < 1 / r" by linarith
  then have "r * 2 powi (k - 1) < 1" using assms by (simp add: field_simps)
  then have "r < 2 powi (- (k - 1))"
    by (rule pow2_less_inv)
  then have "r < 2 powi (expo r + 1)" by (simp add: e)
  with 1 show ?thesis ..
qed

lemma expo_unique:
  assumes "0 < r" "2 powi e \<le> r" "r < 2 powi (e + 1)"
  shows "expo r = e"
proof -
  from expo_bounds [OF assms(1)] have b: "2 powi (expo r) \<le> r" "r < 2 powi (expo r + 1)"
    by simp_all
  from b(1) assms(3) have "(2::rat) powi (expo r) < 2 powi (e + 1)" by linarith
  then have 1: "expo r < e + 1" by (rule pow2_less_exp)
  from assms(2) b(2) have "(2::rat) powi e < 2 powi (expo r + 1)" by linarith
  then have "e < expo r + 1" by (rule pow2_less_exp)
  with 1 show ?thesis by simp
qed

lemma quantum_pos: "0 < quantum x"
  by (simp add: quantum_def)

lemma rnd_grid:
  assumes "t / quantum x = of_int m"
  shows "(x \<le> t \<longrightarrow> rnd x \<le> t) \<and> (t \<le> x \<longrightarrow> t \<le> rnd x)"
proof (cases "x = 0")
  case True
  then show ?thesis by (simp add: rnd_def)
next
  case False
  define q where "q = quantum x"
  have q: "0 < q" by (simp add: q_def quantum_pos)
  have t: "t = of_int m * q" using assms q by (simp add: q_def field_simps)
  have r: "rnd x = of_int (round_half_even (x / q)) * q" using False by (simp add: rnd_def q_def)
  show ?thesis
  proof (intro conjI impI)
    assume "x \<le> t"
    then have "x / q \<le> of_int m" using q by (simp add: t field_simps)
    then have "round_half_even (x / q) \<le> m" by (rule rhe_le)
    then have "(of_int (round_half_even (x / q)) :: rat) \<le> of_int m" by (simp only: of_int_le_iff)
    then show "rnd x \<le> t" using q by (simp add: r t)
  next
    assume "t \<le> x"
    then have "of_int m \<le> x / q" using q by (simp add: t field_simps)
    then have "m \<le> round_half_even (x / q)" by (rule rhe_ge)
    then have "(of_int m :: rat) \<le> of_int (round_half_even (x / q))" by (simp only: of_int_le_iff)
    then show "t \<le> rnd x" using q by (simp add: r t)
  qed
qed

lemma expo_less: "0 < r \<Longrightarrow> r < 2 powi k \<Longrightarrow> expo r < k"
proof -
  assume "0 < r" "r < 2 powi k"
  with expo_bounds [of r] have "(2::rat) powi (expo r) < 2 powi k" by linarith
  then show ?thesis by (rule pow2_less_exp)
qed

lemma expo_ge: "0 < r \<Longrightarrow> 2 powi k \<le> r \<Longrightarrow> k \<le> expo r"
proof -
  assume "0 < r" "2 powi k \<le> r"
  with expo_bounds [of r] have "(2::rat) powi k < 2 powi (expo r + 1)" by linarith
  then have "k < expo r + 1" by (rule pow2_less_exp)
  then show ?thesis by simp
qed

lemma pow2_ratio: "j \<le> k \<Longrightarrow> (2::rat) powi k / 2 powi j = of_int (2 ^ nat (k - j))"
proof -
  assume "j \<le> k"
  then have "(2::rat) powi (k - j) = of_int (2 ^ nat (k - j))" by (intro pow2_int) simp
  moreover have "(2::rat) powi k = 2 powi (k - j) * 2 powi j"
    using pow2_split [of "k - j" j] by simp
  ultimately show ?thesis by simp
qed

lemma int_on_grid:
  assumes "j \<le> 0"
  shows "of_int n / (2::rat) powi j = of_int (n * 2 ^ nat (- j))"
proof -
  have "(2::rat) powi 0 / 2 powi j = of_int (2 ^ nat (0 - j))" using assms by (rule pow2_ratio)
  then have "1 / (2::rat) powi j = of_int (2 ^ nat (- j))" by simp
  then have "of_int n * (1 / (2::rat) powi j) = of_int n * of_int (2 ^ nat (- j))" by simp
  then show ?thesis by simp
qed

lemma quantum_exp_small:
  assumes "x \<noteq> 0" "\<bar>x\<bar> < 2 powi 53"
  shows "max (expo \<bar>x\<bar>) (- 1022) - 52 \<le> 0"
proof -
  have "expo \<bar>x\<bar> < 53" using assms by (intro expo_less) simp_all
  then show ?thesis by simp
qed

lemma rnd_int_bounds:
  assumes "\<bar>x\<bar> < 2 powi 53"
  shows "(x \<le> of_int n \<longrightarrow> rnd x \<le> of_int n) \<and> (of_int n \<le> x \<longrightarrow> of_int n \<le> rnd x)"
proof (cases "x = 0")
  case True
  then show ?thesis by (simp add: rnd_def)
next
  case False
  from quantum_exp_small [OF False assms]
  have "of_int n / quantum x = of_int (n * 2 ^ nat (- (max (expo \<bar>x\<bar>) (- 1022) - 52)))"
    unfolding quantum_def by (rule int_on_grid)
  then show ?thesis by (rule rnd_grid)
qed

lemma rnd_int:
  assumes "\<bar>of_int n :: rat\<bar> < 2 powi 53"
  shows "rnd (of_int n) = of_int n"
  using rnd_int_bounds [OF assms, of n] by simp

lemma rnd_pow_bounds:
  assumes "x \<noteq> 0" "expo \<bar>x\<bar> \<le> k" "- 1022 \<le> k"
  shows "(x \<le> 2 powi k \<longrightarrow> rnd x \<le> 2 powi k) \<and> (- (2 powi k) \<le> x \<longrightarrow> - (2 powi k) \<le> rnd x)
    \<and> (2 powi k \<le> x \<longrightarrow> 2 powi k \<le> rnd x) \<and> (x \<le> - (2 powi k) \<longrightarrow> rnd x \<le> - (2 powi k))"
proof -
  define j where "j = max (expo \<bar>x\<bar>) (- 1022) - 52"
  have jk: "j \<le> k" using assms(2,3) by (simp add: j_def)
  have q: "quantum x = 2 powi j" by (simp add: quantum_def j_def)
  have 1: "2 powi k / quantum x = of_int (2 ^ nat (k - j))"
    unfolding q using jk by (rule pow2_ratio)
  then have 2: "(- (2 powi k)) / quantum x = of_int (- (2 ^ nat (k - j)))" by simp
  from rnd_grid [OF 1] rnd_grid [OF 2] show ?thesis by blast
qed

lemma rnd_big_pos:
  assumes "2 powi 53 \<le> x"
  shows "2 powi 53 \<le> rnd x"
proof -
  have x0: "0 < x" using assms by (rule less_le_trans [rotated]) simp
  then have ax: "\<bar>x\<bar> = x" by simp
  have e53: "53 \<le> expo x" using x0 assms by (rule expo_ge)
  have "2 powi (expo x) \<le> x" using expo_bounds [OF x0] by simp
  moreover have "x \<noteq> 0" using x0 by simp
  ultimately have "2 powi (expo x) \<le> rnd x"
    using rnd_pow_bounds [of x "expo x"] e53 ax by simp
  moreover have "(2::rat) powi 53 \<le> 2 powi (expo x)" using e53 by (rule pow2_mono)
  ultimately show ?thesis by linarith
qed

lemma rnd_big_neg:
  assumes "x \<le> - (2 powi 53)"
  shows "rnd x \<le> - (2 powi 53)"
proof -
  have p: "(0::rat) < 2 powi 53" by simp
  with assms have x0: "x < 0" by linarith
  then have ax: "\<bar>x\<bar> = - x" by simp
  have a0: "0 < \<bar>x\<bar>" using x0 by simp
  have "2 powi 53 \<le> \<bar>x\<bar>" using assms ax by linarith
  with a0 have e53: "53 \<le> expo \<bar>x\<bar>" by (rule expo_ge)
  have "2 powi (expo \<bar>x\<bar>) \<le> \<bar>x\<bar>" using expo_bounds [OF a0] by simp
  then have "x \<le> - (2 powi (expo \<bar>x\<bar>))" using ax by linarith
  moreover have "x \<noteq> 0" using x0 by simp
  ultimately have "rnd x \<le> - (2 powi (expo \<bar>x\<bar>))"
    using rnd_pow_bounds [of x "expo \<bar>x\<bar>"] e53 by simp
  moreover have "(2::rat) powi 53 \<le> 2 powi (expo \<bar>x\<bar>)" using e53 by (rule pow2_mono)
  ultimately show ?thesis by linarith
qed

lemma rnd_mono_int:
  assumes "\<bar>of_int n :: rat\<bar> < 2 powi 53"
  shows "(x \<le> of_int n \<longrightarrow> rnd x \<le> of_int n) \<and> (of_int n \<le> x \<longrightarrow> of_int n \<le> rnd x)"
proof -
  consider "\<bar>x\<bar> < 2 powi 53" | "2 powi 53 \<le> x" | "x \<le> - (2 powi 53)" by linarith
  then show ?thesis
  proof cases
    case 1
    then show ?thesis by (rule rnd_int_bounds)
  next
    case 2
    with rnd_big_pos [OF 2] assms show ?thesis by linarith
  next
    case 3
    with rnd_big_neg [OF 3] assms show ?thesis by linarith
  qed
qed

lemma rnd_abs_le_1023:
  assumes "\<bar>x\<bar> \<le> 2 powi 1023"
  shows "\<bar>rnd x\<bar> \<le> 2 powi 1023"
proof (cases "x = 0")
  case True
  then show ?thesis by (simp add: rnd_def)
next
  case False
  then have a0: "0 < \<bar>x\<bar>" by simp
  have "\<bar>x\<bar> < 2 powi (1023 + 1)"
    using assms pow2_split [of 1023 1] by simp
  with a0 have "expo \<bar>x\<bar> < 1023 + 1" by (rule expo_less)
  then have "expo \<bar>x\<bar> \<le> 1023" by simp
  from rnd_pow_bounds [OF False this] assms show ?thesis by (simp add: abs_le_iff)
qed

lemma rnd_eval:
  assumes "2 powi e \<le> \<bar>x\<bar>" "\<bar>x\<bar> < 2 powi (e + 1)" "- 1022 \<le> e"
  shows "rnd x = of_int (round_half_even (x / 2 powi (e - 52))) * 2 powi (e - 52)"
proof -
  have "(0::rat) < 2 powi e" by simp
  with assms(1) have a0: "0 < \<bar>x\<bar>" by linarith
  then have "expo \<bar>x\<bar> = e" using assms(1,2) by (rule expo_unique)
  with assms(3) have "quantum x = 2 powi (e - 52)" by (simp add: quantum_def)
  moreover have "x \<noteq> 0" using a0 by simp
  ultimately show ?thesis by (simp add: rnd_def)
qed

lemma fl_fin_iff: "\<bar>rnd r\<bar> < 2 powi 1024 \<Longrightarrow> fl r = Fin (rnd r)"
  by (auto simp: fl_def)

lemma pow2_1024_big: "(2::rat) powi 53 < 2 powi 1024" "(2::rat) powi 1023 < 2 powi 1024"
  by (rule power_int_strict_increasing; simp)+

lemma fl_int:
  assumes "\<bar>of_int n :: rat\<bar> < 2 powi 53"
  shows "fl (of_int n) = Fin (of_int n)"
  using assms pow2_1024_big(1) by (simp only: rnd_int [OF assms] fl_def) auto

lemma rhe_near: "\<bar>y - of_int m\<bar> < 1 / 2 \<Longrightarrow> round_half_even y = m"
proof -
  assume a: "\<bar>y - of_int m\<bar> < 1 / 2"
  show ?thesis
  proof (cases "of_int m \<le> y")
    case True
    with a have "\<lfloor>y\<rfloor> = m" by (intro floor_unique) linarith+
    with a True show ?thesis by (simp add: round_half_even_def)
  next
    case False
    with a have b: "of_int m - 1 < y" "y < of_int m" by linarith+
    then have f: "\<lfloor>y\<rfloor> = m - 1" by (intro floor_unique) simp_all
    from a False have "1 / 2 < y - (of_int m - 1)" by linarith
    with f show ?thesis by (simp add: round_half_even_def)
  qed
qed

lemma fl_near:
  assumes "2 powi e \<le> \<bar>x\<bar>" "\<bar>x\<bar> < 2 powi (e + 1)" "- 1022 \<le> e"
    "\<bar>x / 2 powi (e - 52) - of_int m\<bar> < 1 / 2" "r = of_int m * 2 powi (e - 52)"
    "\<bar>r\<bar> < 2 powi 1024"
  shows "fl x = Fin r"
proof -
  have "rnd x = r"
    using rnd_eval [OF assms(1-3)] rhe_near [OF assms(4)] assms(5) by simp
  with assms(6) show ?thesis by (simp add: fl_fin_iff)
qed

lemma fdiv_fin: "b \<noteq> 0 \<Longrightarrow> fl (a / b) = Fin q \<Longrightarrow> fdiv (Fin a) (Fin b) = Inr (Fin q)"
  by simp

lemma fmul_fin: "fl (a * b) = Fin p \<Longrightarrow> fmul (Fin a) (Fin b) = Fin p"
  by simp

lemma clamp_pct_fin:
  "py_max (Fin (- 100)) (py_min (Fin 100) (Fin p)) = Fin (max (- 100) (min 100 p))"
  by (simp add: py_max_def py_min_def max_def min_def)

lemma steps_eval:
  assumes "0 < b" "fl (a / b) = Fin q" "fl (q * 100) = Fin p" "- 100 \<le> p" "p \<le> 100"
    "fl (p / 5) = Fin x" "round_half_even x = s" "- 20 \<le> s" "s \<le> 20"
  shows "to_signed_steps_5pct self (Fin a) (Fin b) = Inr s"
proof -
  have d: "fdiv (Fin a) (Fin b) = Inr (Fin q)" using assms(1,2) by (intro fdiv_fin) simp_all
  have m: "fmul (Fin q) (Fin 100) = Fin p" using assms(3) by (rule fmul_fin)
  have c: "py_max (Fin (- 100)) (py_min (Fin 100) (Fin p)) = Fin p"
    using assms(4,5) by (simp add: clamp_pct_fin)
  have x: "fdiv (Fin p) (Fin 5) = Inr (Fin x)" using assms(6) by (intro fdiv_fin) simp_all
  have n: "\<not> fle (Fin b) (Fin 0)" using assms(1) by simp
  have cl: "clamp_int s (- 20) 20 = s" using assms(8,9) by (simp add: clamp_int_def)
  show ?thesis
    unfolding to_signed_steps_5pct_def Let_def
    by (simp only: n if_False d bindE_def sum.case m c if_cancel x py_round.simps assms(7) cl)
qed

text \<open>
  The division \<open>23.0 / 40.0\<close>, the product by \<open>100.0\<close> and the division by \<open>5.0\<close>, each
  rounded to a double: the quotient is just below \<open>11.5\<close>, and the step is 11.
\<close>

lemma fl_23_40:
  "fl (23 / 40) = Fin (5179139571476070 / 2 ^ 53)"
  "fl (5179139571476070 / 2 ^ 53 * 100) = Fin (8092405580431359 / 2 ^ 47)"
  "fl (8092405580431359 / 2 ^ 47 / 5) = Fin (6473924464345087 / 2 ^ 49)"
proof -
  show "fl (23 / 40) = Fin (5179139571476070 / 2 ^ 53)"
    by (rule fl_near [where e = "- 1" and m = 5179139571476070]) simp_all
  show "fl (5179139571476070 / 2 ^ 53 * 100) = Fin (8092405580431359 / 2 ^ 47)"
    by (rule fl_near [where e = 5 and m = 8092405580431359]) simp_all
  show "fl (8092405580431359 / 2 ^ 47 / 5) = Fin (6473924464345087 / 2 ^ 49)"
    by (rule fl_near [where e = 3 and m = 6473924464345087]) simp_all
qed

lemma rhe_23_40: "round_half_even (6473924464345087 / 2 ^ 49) = 11"
  by (rule rhe_near) simp

lemma steps_23_40: "to_signed_steps_5pct self (Fin 23) (Fin 40) = Inr 11"
  by (rule steps_eval [OF _ fl_23_40(1) fl_23_40(2) _ _ fl_23_40(3) rhe_23_40]) simp_all

text \<open>
  The double nearest to \<open>0.075\<close>, over \<open>1.0\<close>: the product by \<open>100.0\<close> rounds to \<open>7.5\<close>,
  the quotient is \<open>1.5\<close>, and the tie goes to the even step 2.
\<close>

lemma fl_0075:
  "fl (5404319552844595 / 2 ^ 56 / 1) = Fin (5404319552844595 / 2 ^ 56)"
  "fl (5404319552844595 / 2 ^ 56 * 100) = Fin (15 / 2)"
  "fl (15 / 2 / 5) = Fin (3 / 2)"
proof -
  show "fl (5404319552844595 / 2 ^ 56 / 1) = Fin (5404319552844595 / 2 ^ 56)"
    by (rule fl_near [where e = "- 4" and m = 5404319552844595]) simp_all
  show "fl (5404319552844595 / 2 ^ 56 * 100) = Fin (15 / 2)"
    by (rule fl_near [where e = 2 and m = 8444249301319680]) simp_all
  show "fl (15 / 2 / 5) = Fin (3 / 2)"
    by (rule fl_near [where e = 0 and m = 6755399441055744]) simp_all
qed

lemma rhe_3_2: "round_half_even (3 / 2) = 2"
proof -
  have "\<lfloor>(3::rat) / 2\<rfloor> = 1" by (simp add: floor_eq_iff)
  then show ?thesis by (simp add: round_half_even_def)
qed

lemma steps_0075: "to_signed_steps_5pct self (Fin (5404319552844595 / 2 ^ 56)) (Fin 1) = Inr 2"
  by (rule steps_eval [OF _ fl_0075(1) fl_0075(2) _ _ fl_0075(3) rhe_3_2]) simp_all

text \<open>The same for \<open>-83.0 / 100.0\<close>: the step is \<open>-17\<close>.\<close>

lemma fl_m83_100:
  "fl (- 83 / 100) = Fin (- 7475975381435023 / 2 ^ 53)"
  "fl (- 7475975381435023 / 2 ^ 53 * 100) = Fin (- 83)"
  "fl (- 83 / 5) = Fin (- 4672484613396890 / 2 ^ 48)"
proof -
  show "fl (- 83 / 100) = Fin (- 7475975381435023 / 2 ^ 53)"
    by (rule fl_near [where e = "- 1" and m = "- 7475975381435023"]) simp_all
  show "fl (- 7475975381435023 / 2 ^ 53 * 100) = Fin (- 83)"
    by (rule fl_near [where e = 6 and m = "- 5840605766746112"]) simp_all
  show "fl (- 83 / 5) = Fin (- 4672484613396890 / 2 ^ 48)"
    by (rule fl_near [where e = 4 and m = "- 4672484613396890"]) simp_all
qed

lemma rhe_m83_100: "round_half_even (- 4672484613396890 / 2 ^ 48) = - 17"
  by (rule rhe_near) simp

lemma to_steps_m83: "to_signed_steps_5pct self (Fin (- 83)) (Fin 100) = Inr (- 17)"
  by (rule steps_eval [OF _ fl_m83_100(1) fl_m83_100(2) _ _ fl_m83_100(3) rhe_m83_100]) simp_all

lemma small_int: "\<bar>n\<bar> \<le> 1000 \<Longrightarrow> \<bar>of_int n :: rat\<bar> < 2 powi 53"
proof -
  assume "\<bar>n\<bar> \<le> 1000"
  then have "\<bar>of_int n :: rat\<bar> \<le> 1000" by (simp add: abs_le_iff)
  moreover have "(1000::rat) < 2 powi 53" by simp
  ultimately show ?thesis by linarith
qed

lemma fl_num:
  "\<bar>numeral k :: int\<bar> \<le> 1000 \<Longrightarrow> fl (numeral k) = Fin (numeral k)"
  "\<bar>numeral k :: int\<bar> \<le> 1000 \<Longrightarrow> fl (- numeral k) = Fin (- numeral k)"
  "fl 1 = Fin 1" "fl 0 = Fin 0" "fl (- 1) = Fin (- 1)"
  using fl_int [OF small_int, of "numeral k"] fl_int [OF small_int, of "- numeral k"]
    fl_int [OF small_int, of 1] fl_int [OF small_int, of 0] fl_int [OF small_int, of "- 1"]
  by simp_all

lemma fl_bounded:
  assumes "\<bar>x\<bar> \<le> of_int n" "n \<le> 1000"
  shows "\<exists>y. fl x = Fin y \<and> \<bar>y\<bar> \<le> of_int n"
proof -
  have n0: "0 \<le> n" using assms(1) by (smt (verit) abs_ge_zero of_int_0_le_iff order_trans)
  then have s: "\<bar>of_int n :: rat\<bar> < 2 powi 53" "\<bar>of_int (- n) :: rat\<bar> < 2 powi 53"
    using assms(2) by (simp_all add: small_int)
  have "rnd x \<le> of_int n" using rnd_mono_int [OF s(1), of x] assms(1) by linarith
  moreover have "of_int (- n) \<le> rnd x"
    using rnd_mono_int [OF s(2), of x] assms(1) by simp
  ultimately have b: "\<bar>rnd x\<bar> \<le> of_int n" by simp
  have "(of_int n :: rat) \<le> 1000" using assms(2) by linarith
  moreover have "(1000::rat) < 2 powi 1024" by simp
  ultimately have "\<bar>rnd x\<bar> < 2 powi 1024" using b by linarith
  with b show ?thesis by (simp add: fl_fin_iff)
qed

lemma fl_ge_int:
  assumes "of_int n \<le> x" "\<bar>n\<bar> \<le> 1000"
  shows "fl x = PInf \<or> (\<exists>y. fl x = Fin y \<and> of_int n \<le> y)"
proof -
  have "of_int n \<le> rnd x" using rnd_mono_int [OF small_int [OF assms(2)], of x] assms(1) by simp
  moreover have "- (2 powi 1024) < (of_int n :: rat)"
  proof -
    have "(- 1000 :: rat) \<le> of_int n" using assms(2) by linarith
    moreover have "- (2 powi 1024) < (- 1000 :: rat)" by simp
    ultimately show ?thesis by linarith
  qed
  ultimately show ?thesis by (auto simp: fl_def)
qed

lemma fl_le_int:
  assumes "x \<le> of_int n" "\<bar>n\<bar> \<le> 1000"
  shows "fl x = NInf \<or> (\<exists>y. fl x = Fin y \<and> y \<le> of_int n)"
proof -
  have "rnd x \<le> of_int n" using rnd_mono_int [OF small_int [OF assms(2)], of x] assms(1) by simp
  moreover have "(of_int n :: rat) < 2 powi 1024"
  proof -
    have "(of_int n :: rat) \<le> 1000" using assms(2) by linarith
    moreover have "(1000 :: rat) < 2 powi 1024" by simp
    ultimately show ?thesis by linarith
  qed
  ultimately show ?thesis by (auto simp: fl_def)
qed

lemma fl_fin_bound: "fl r = Fin p \<Longrightarrow> \<bar>p\<bar> < 2 powi 1024"
  by (auto simp: fl_def split: if_splits)

lemma fl_div5_fin:
  assumes "\<bar>p\<bar> < 2 powi 1024"
  shows "\<exists>y. fl (p / 5) = Fin y"
proof -
  have "(2::rat) powi 1024 = 2 powi 1023 * 2" using pow2_split [of 1023 1] by simp
  with assms have "\<bar>p / 5\<bar> \<le> 2 powi 1023" by simp
  then have "\<bar>rnd (p / 5)\<bar> \<le> 2 powi 1023" by (rule rnd_abs_le_1023)
  with pow2_1024_big(2) have "\<bar>rnd (p / 5)\<bar> < 2 powi 1024" by linarith
  then show ?thesis by (simp add: fl_fin_iff)
qed

section \<open>The step conversion\<close>

lemma clamp_int_range: "lo \<le> hi \<Longrightarrow> lo \<le> clamp_int x lo hi \<and> clamp_int x lo hi \<le> hi"
  by (simp add: clamp_int_def)

lemma to_steps_range:
  "to_signed_steps_5pct self v d = Inr s \<Longrightarrow> - 20 \<le> s \<and> s \<le> 20"
  unfolding to_signed_steps_5pct_def bindE_def Let_def
  using clamp_int_range [of "- 20" 20]
  by (auto split: if_splits sum.splits)

lemma clamped_pct:
  "\<exists>p. py_max (Fin (- 100)) (py_min (Fin 100) x) = Fin p \<and> - 100 \<le> p \<and> p \<le> 100"
  by (cases x) (auto simp: py_max_def py_min_def)

lemma fdiv5_clamped:
  assumes "- 100 \<le> p" "p \<le> 100"
  shows "\<exists>y. fdiv (Fin p) (Fin 5) = Inr (Fin y)"
proof -
  have "\<bar>p / 5\<bar> \<le> of_int 20" using assms by simp
  from fl_bounded [OF this] show ?thesis by auto
qed

lemma fdiv_pos_returns: "\<not> fle d (Fin 0) \<Longrightarrow> \<exists>q. fdiv v d = Inr q"
  by (cases v; cases d) auto

lemma to_steps_unfold:
  assumes "\<not> fle d (Fin 0)" "fdiv v d = Inr q"
    "fdiv (if clamp_to_100 self then py_max (Fin (- 100)) (py_min (Fin 100) (fmul q (Fin 100)))
           else fmul q (Fin 100)) (Fin 5) = Inr x"
  shows "to_signed_steps_5pct self v d
         = bindE (py_round x) (\<lambda>steps. Inr (clamp_int steps (- 20) 20))"
  using assms by (simp add: to_signed_steps_5pct_def bindE_def Let_def)

lemma to_steps_clamped_returns:
  assumes "clamp_to_100 self"
  shows "\<exists>s. to_signed_steps_5pct self v d = Inr s"
proof (cases "fle d (Fin 0)")
  case True
  then show ?thesis by (simp add: to_signed_steps_5pct_def)
next
  case False
  then obtain q where q: "fdiv v d = Inr q" using fdiv_pos_returns by blast
  obtain p where p: "py_max (Fin (- 100)) (py_min (Fin 100) (fmul q (Fin 100))) = Fin p"
    "- 100 \<le> p" "p \<le> 100"
    using clamped_pct by blast
  from fdiv5_clamped [OF p(2,3)] obtain y where "fdiv (Fin p) (Fin 5) = Inr (Fin y)" by blast
  with to_steps_unfold [OF False q, of self "Fin y"] assms p(1) show ?thesis
    by (simp add: bindE_def)
qed

lemma to_steps_nonpos: "fle d (Fin 0) \<Longrightarrow> to_signed_steps_5pct self v d = Inr 0"
  by (simp add: to_signed_steps_5pct_def)

lemma rhe_numeral [simp]: "round_half_even (numeral k) = numeral k"
  "round_half_even (- numeral k) = - numeral k"
  using rhe_int [of "numeral k"] rhe_int [of "- numeral k"] by simp_all

lemma to_steps_eq_denom:
  assumes "0 < r"
  shows "to_signed_steps_5pct self (Fin r) (Fin r) = Inr 20"
    and "to_signed_steps_5pct self (Fin (- r)) (Fin r) = Inr (- 20)"
proof -
  show "to_signed_steps_5pct self (Fin r) (Fin r) = Inr 20"
    using assms by (intro steps_eval [where q = 1 and p = 100 and x = 20]) (simp_all add: fl_num)
  show "to_signed_steps_5pct self (Fin (- r)) (Fin r) = Inr (- 20)"
    using assms
    by (intro steps_eval [where q = "- 1" and p = "- 100" and x = "- 20"]) (simp_all add: fl_num)
qed

lemma to_steps_formula:
  assumes "\<not> fle d (Fin 0)" "fdiv v d = Inr q"
    "fdiv (if clamp_to_100 self then py_max (Fin (- 100)) (py_min (Fin 100) (fmul q (Fin 100)))
           else fmul q (Fin 100)) (Fin 5) = Inr (Fin x)"
  shows "to_signed_steps_5pct self v d = Inr (clamp_int (round_half_even x) (- 20) 20)"
  using to_steps_unfold [OF assms] by (simp add: bindE_def)

lemma to_steps_raises:
  assumes "\<not> clamp_to_100 self" "\<not> fle d (Fin 0)" "fdiv v d = Inr q"
  shows "fmul q (Fin 100) = PInf \<Longrightarrow> to_signed_steps_5pct self v d = Inl OverflowError"
    and "fmul q (Fin 100) = NInf \<Longrightarrow> to_signed_steps_5pct self v d = Inl OverflowError"
    and "fmul q (Fin 100) = NaN \<Longrightarrow> to_signed_steps_5pct self v d = Inl ValueError"
  using assms by (simp_all add: to_signed_steps_5pct_def bindE_def inf_of_def)

lemma to_steps_off_returns:
  assumes "\<not> clamp_to_100 self" "\<not> fle d (Fin 0)" "fdiv v d = Inr q" "fmul q (Fin 100) = Fin p"
  shows "\<exists>s. to_signed_steps_5pct self v d = Inr s"
proof -
  from assms(4) obtain q' where "q = Fin q'" "fl (q' * 100) = Fin p"
    by (cases q) (auto simp: inf_of_def split: if_splits)
  then have "\<bar>p\<bar> < 2 powi 1024" using fl_fin_bound by blast
  from fl_div5_fin [OF this] obtain y where "fdiv (Fin p) (Fin 5) = Inr (Fin y)" by auto
  with to_steps_formula [OF assms(2,3), of self y] assms(1,4) show ?thesis by simp
qed

lemma to_steps_on_nonfinite:
  assumes "clamp_to_100 self" "\<not> fle d (Fin 0)" "fdiv v d = Inr q"
  shows "fmul q (Fin 100) = PInf \<Longrightarrow> to_signed_steps_5pct self v d = Inr 20"
    and "fmul q (Fin 100) = NInf \<Longrightarrow> to_signed_steps_5pct self v d = Inr (- 20)"
    and "fmul q (Fin 100) = NaN \<Longrightarrow> to_signed_steps_5pct self v d = Inr 20"
  using assms
  by (simp_all add: to_signed_steps_5pct_def bindE_def py_max_def py_min_def fl_num clamp_int_def)

lemma clamp_flag_agree:
  assumes "to_signed_steps_5pct (self\<lparr>clamp_to_100 := False\<rparr>) v d = Inr s"
  shows "to_signed_steps_5pct (self\<lparr>clamp_to_100 := True\<rparr>) v d = Inr s"
proof (cases "fle d (Fin 0)")
  case True
  with assms show ?thesis by (simp add: to_signed_steps_5pct_def)
next
  case False
  then obtain q where q: "fdiv v d = Inr q" using fdiv_pos_returns by blast
  define pct where "pct = fmul q (Fin 100)"
  from assms False q obtain x where x: "fdiv pct (Fin 5) = Inr x"
    and r: "bindE (py_round x) (\<lambda>steps. Inr (clamp_int steps (- 20) 20)) = Inr s"
    by (auto simp: to_signed_steps_5pct_def bindE_def pct_def split: sum.splits)
  from r obtain y where y: "x = Fin y" and s: "s = clamp_int (round_half_even y) (- 20) 20"
    by (cases x) (auto simp: bindE_def)
  from x y obtain p where p: "pct = Fin p" and yp: "fl (p / 5) = Fin y"
    by (cases pct) (auto simp: inf_of_def split: if_splits)
  define p' where "p' = max (- 100) (min 100 p)"
  have m: "py_max (Fin (- 100)) (py_min (Fin 100) pct) = Fin p'"
    by (simp add: p p'_def clamp_pct_fin)
  have "\<bar>p' / 5\<bar> \<le> of_int 20" unfolding p'_def by simp
  from fl_bounded [OF this] obtain y' where y': "fl (p' / 5) = Fin y'" by auto
  have eq: "clamp_int (round_half_even y') (- 20) 20 = clamp_int (round_half_even y) (- 20) 20"
  proof -
    consider "100 < p" | "p < - 100" | "- 100 \<le> p \<and> p \<le> 100" by linarith
    then show ?thesis
    proof cases
      case 1
      then have "of_int 20 \<le> p / 5" by simp
      from fl_ge_int [OF this] yp have "of_int 20 \<le> y" by auto
      then have "20 \<le> round_half_even y" by (rule rhe_ge)
      moreover from 1 have "p' = 100" by (simp add: p'_def)
      with y' have "y' = 20" by (simp add: fl_num)
      ultimately show ?thesis by (simp add: clamp_int_def)
    next
      case 2
      then have "p / 5 \<le> of_int (- 20)" by simp
      from fl_le_int [OF this] yp have "y \<le> of_int (- 20)" by auto
      then have "round_half_even y \<le> - 20" by (rule rhe_le)
      moreover from 2 have "p' = - 100" by (simp add: p'_def)
      with y' have "y' = - 20" by (simp add: fl_num)
      ultimately show ?thesis by (simp add: clamp_int_def)
    next
      case 3
      then have "p' = p" by (simp add: p'_def)
      with y' yp show ?thesis by simp
    qed
  qed
  have "fdiv (Fin p') (Fin 5) = Inr (Fin y')" using y' by simp
  with to_steps_formula [OF False q, of "self\<lparr>clamp_to_100 := True\<rparr>" y'] m eq s
  show ?thesis by (simp add: pct_def)
qed

text \<open>
  Claim C1, as amended. Whenever the conversion returns, the step is in \<open>[-20, 20]\<close>,
  and with the clamp flag on it always returns. A denominator that is not positive gives
  step \<open>0\<close> (the guard at the top of the function). With a positive finite denominator,
  \<open>value == denom\<close> gives step \<open>20\<close> and \<open>value == -denom\<close> gives \<open>-20\<close>. With a positive
  denominator the step is \<open>round(pct / 5)\<close> clamped to \<open>[-20, 20]\<close>, where
  \<open>pct = value / denom * 100\<close>, in double arithmetic, is bounded to \<open>[-100, 100]\<close> when the
  clamp flag is on. With the clamp flag off the conversion raises OverflowError when
  \<open>pct\<close> is an infinity and ValueError when it is NaN, and returns when it is finite.
\<close>

theorem to_signed_steps_5pct_spec:
  "(\<forall>s. to_signed_steps_5pct self v d = Inr s \<longrightarrow> - 20 \<le> s \<and> s \<le> 20)
   \<and> (clamp_to_100 self \<longrightarrow> (\<exists>s. to_signed_steps_5pct self v d = Inr s))
   \<and> (fle d (Fin 0) \<longrightarrow> to_signed_steps_5pct self v d = Inr 0)
   \<and> (0 < r \<longrightarrow>
        to_signed_steps_5pct self (Fin r) (Fin r) = Inr 20
        \<and> to_signed_steps_5pct self (Fin (- r)) (Fin r) = Inr (- 20))
   \<and> (\<not> fle d (Fin 0) \<and> fdiv v d = Inr q
        \<and> fdiv (if clamp_to_100 self
                 then py_max (Fin (- 100)) (py_min (Fin 100) (fmul q (Fin 100)))
                 else fmul q (Fin 100)) (Fin 5) = Inr (Fin x) \<longrightarrow>
        to_signed_steps_5pct self v d = Inr (clamp_int (round_half_even x) (- 20) 20))
   \<and> (\<not> clamp_to_100 self \<and> \<not> fle d (Fin 0) \<and> fdiv v d = Inr q
        \<and> (fmul q (Fin 100) = PInf \<or> fmul q (Fin 100) = NInf) \<longrightarrow>
        to_signed_steps_5pct self v d = Inl OverflowError)
   \<and> (\<not> clamp_to_100 self \<and> \<not> fle d (Fin 0) \<and> fdiv v d = Inr q
        \<and> fmul q (Fin 100) = NaN \<longrightarrow>
        to_signed_steps_5pct self v d = Inl ValueError)
   \<and> (\<not> clamp_to_100 self \<and> \<not> fle d (Fin 0) \<and> fdiv v d = Inr q
        \<and> fmul q (Fin 100) = Fin p \<longrightarrow>
        (\<exists>s. to_signed_steps_5pct self v d = Inr s))"
  using to_steps_range [of self v d] to_steps_clamped_returns [of self v d]
    to_steps_nonpos [of d self v] to_steps_eq_denom [of r self]
    to_steps_formula [of d v q self x] to_steps_raises [of self d v q]
    to_steps_off_returns [of self d v q p]
  by blast

theorem to_signed_steps_5pct_spec_witness:
  "fle (Fin (- 5)) (Fin 0)
   \<and> to_signed_steps_5pct (default_chart []) (Fin 3) (Fin (- 5)) = Inr 0
   \<and> (0::rat) < 7
   \<and> to_signed_steps_5pct (default_chart []) (Fin 7) (Fin 7) = Inr 20
   \<and> to_signed_steps_5pct (default_chart []) (Fin (- 7)) (Fin 7) = Inr (- 20)
   \<and> clamp_to_100 (default_chart [])
   \<and> \<not> fle (Fin 40) (Fin 0)
   \<and> fdiv (Fin 23) (Fin 40) = Inr (Fin (5179139571476070 / 2 ^ 53))
   \<and> fdiv (py_max (Fin (- 100)) (py_min (Fin 100)
              (fmul (Fin (5179139571476070 / 2 ^ 53)) (Fin 100)))) (Fin 5)
       = Inr (Fin (6473924464345087 / 2 ^ 49))
   \<and> to_signed_steps_5pct (default_chart []) (Fin 23) (Fin 40) = Inr 11
   \<and> \<not> clamp_to_100 ((default_chart []) \<lparr>clamp_to_100 := False\<rparr>)
   \<and> fdiv PInf (Fin 1) = Inr PInf \<and> fmul PInf (Fin 100) = PInf
   \<and> to_signed_steps_5pct ((default_chart []) \<lparr>clamp_to_100 := False\<rparr>) PInf (Fin 1)
       = Inl OverflowError
   \<and> fdiv NaN (Fin 1) = Inr NaN \<and> fmul NaN (Fin 100) = NaN
   \<and> to_signed_steps_5pct ((default_chart []) \<lparr>clamp_to_100 := False\<rparr>) NaN (Fin 1)
       = Inl ValueError
   \<and> fdiv (Fin 500) (Fin 100) = Inr (Fin 5) \<and> fmul (Fin 5) (Fin 100) = Fin 500
   \<and> fdiv (Fin 500) (Fin 5) = Inr (Fin 100)
   \<and> to_signed_steps_5pct ((default_chart []) \<lparr>clamp_to_100 := False\<rparr>) (Fin 500) (Fin 100)
       = Inr 20"
proof -
  define on where "on = default_chart []"
  define off where "off = (default_chart []) \<lparr>clamp_to_100 := False\<rparr>"
  have c: "clamp_to_100 on" "\<not> clamp_to_100 off"
    by (simp_all add: on_def off_def default_chart_def)
  have a1: "fdiv (Fin 23) (Fin 40) = Inr (Fin (5179139571476070 / 2 ^ 53))"
    using fl_23_40(1) by (intro fdiv_fin) simp_all
  have a2: "fmul (Fin (5179139571476070 / 2 ^ 53)) (Fin 100) = Fin (8092405580431359 / 2 ^ 47)"
    using fl_23_40(2) by (rule fmul_fin)
  have a3: "py_max (Fin (- 100)) (py_min (Fin 100) (Fin (8092405580431359 / 2 ^ 47)))
            = Fin (8092405580431359 / 2 ^ 47)"
    by (simp add: clamp_pct_fin)
  have a4: "fdiv (Fin (8092405580431359 / 2 ^ 47)) (Fin 5) = Inr (Fin (6473924464345087 / 2 ^ 49))"
    using fl_23_40(3) by (intro fdiv_fin) simp_all
  have a5: "fdiv (py_max (Fin (- 100)) (py_min (Fin 100)
              (fmul (Fin (5179139571476070 / 2 ^ 53)) (Fin 100)))) (Fin 5)
       = Inr (Fin (6473924464345087 / 2 ^ 49))"
    by (simp only: a2 a3 a4)
  have n: "\<not> fle (Fin 40) (Fin 0)" "\<not> fle (Fin 1) (Fin 0)" "\<not> fle (Fin 100) (Fin 0)"
    "fle (Fin (- 5)) (Fin 0)"
    by simp_all
  have w1: "to_signed_steps_5pct on (Fin 3) (Fin (- 5)) = Inr 0"
    using to_signed_steps_5pct_spec [of on "Fin 3" "Fin (- 5)"] n(4) by blast
  have w2: "to_signed_steps_5pct on (Fin 7) (Fin 7) = Inr 20"
    "to_signed_steps_5pct on (Fin (- 7)) (Fin 7) = Inr (- 20)"
    using to_signed_steps_5pct_spec [of on _ _ 7] by simp_all
  have w3: "to_signed_steps_5pct on (Fin 23) (Fin 40)
            = Inr (clamp_int (round_half_even (6473924464345087 / 2 ^ 49)) (- 20) 20)"
    using to_signed_steps_5pct_spec [of on "Fin 23" "Fin 40" _
        "Fin (5179139571476070 / 2 ^ 53)" "6473924464345087 / 2 ^ 49"] c(1) n(1) a1 a5
    by (simp only: if_True simp_thms)
  have w3': "to_signed_steps_5pct on (Fin 23) (Fin 40) = Inr 11"
    by (simp only: w3 rhe_23_40) (simp add: clamp_int_def)
  have b1: "fdiv PInf (Fin 1) = Inr PInf" "fmul PInf (Fin 100) = PInf"
    "fdiv NaN (Fin 1) = Inr NaN" "fmul NaN (Fin 100) = NaN"
    by (simp_all add: inf_of_def)
  have w4: "to_signed_steps_5pct off PInf (Fin 1) = Inl OverflowError"
    using to_signed_steps_5pct_spec [of off PInf "Fin 1" _ PInf] c(2) n(2) b1(1,2) by blast
  have w5: "to_signed_steps_5pct off NaN (Fin 1) = Inl ValueError"
    using to_signed_steps_5pct_spec [of off NaN "Fin 1" _ NaN] c(2) n(2) b1(3,4) by blast
  have d1: "fdiv (Fin 500) (Fin 100) = Inr (Fin 5)" "fmul (Fin 5) (Fin 100) = Fin 500"
    "fdiv (Fin 500) (Fin 5) = Inr (Fin 100)"
    by (simp_all add: fl_num)
  have w6: "to_signed_steps_5pct off (Fin 500) (Fin 100)
            = Inr (clamp_int (round_half_even 100) (- 20) 20)"
    using to_signed_steps_5pct_spec [of off "Fin 500" "Fin 100" _ "Fin 5" 100] c(2) n(3) d1
    by (simp only: if_False simp_thms)
  have w6': "to_signed_steps_5pct off (Fin 500) (Fin 100) = Inr 20"
    by (simp only: w6) (simp add: clamp_int_def)
  from c n w1 w2 w3' w4 w5 w6' a1 a5 b1 d1 show ?thesis
    unfolding on_def off_def by (simp only: simp_thms)
qed

text \<open>
  The claim as stated fails twice: at \<open>value == denom == -5\<close> the clamp-on conversion
  returns \<open>0\<close>, not \<open>20\<close>; with the clamp flag off an infinite value produces no step
  (\<open>round\<close> raises OverflowError).
\<close>

theorem to_signed_steps_5pct_counterexample:
  "clamp_to_100 (default_chart [])
   \<and> to_signed_steps_5pct (default_chart []) (Fin (- 5)) (Fin (- 5)) = Inr 0
   \<and> to_signed_steps_5pct (default_chart []) (Fin (- 5)) (Fin (- 5)) \<noteq> Inr 20
   \<and> to_signed_steps_5pct ((default_chart []) \<lparr>clamp_to_100 := False\<rparr>) PInf (Fin 1)
       = Inl OverflowError"
  by (simp add: to_signed_steps_5pct_def default_chart_def bindE_def inf_of_def)

text \<open>
  Claim C4, as amended. Whenever the conversion with the clamp flag off returns a step,
  the conversion with the clamp flag on returns the same step; and the former returns
  whenever the denominator is positive and the percentage finite. With a positive
  denominator and a percentage that is an infinity or NaN the two differ: with the flag
  on the step is \<open>20\<close> (for \<open>+inf\<close> and NaN) or \<open>-20\<close> (for \<open>-inf\<close>), with the flag off
  the conversion raises OverflowError (an infinity) or ValueError (NaN).
\<close>

theorem clamp_flag_no_effect:
  "(to_signed_steps_5pct (self\<lparr>clamp_to_100 := False\<rparr>) v d = Inr s \<longrightarrow>
      to_signed_steps_5pct (self\<lparr>clamp_to_100 := True\<rparr>) v d = Inr s)
   \<and> (\<not> fle d (Fin 0) \<and> fdiv v d = Inr q \<and> fmul q (Fin 100) = Fin p \<longrightarrow>
        (\<exists>s'. to_signed_steps_5pct (self\<lparr>clamp_to_100 := False\<rparr>) v d = Inr s'))
   \<and> (\<not> fle d (Fin 0) \<and> fdiv v d = Inr q \<and> fmul q (Fin 100) = PInf \<longrightarrow>
        to_signed_steps_5pct (self\<lparr>clamp_to_100 := True\<rparr>) v d = Inr 20
        \<and> to_signed_steps_5pct (self\<lparr>clamp_to_100 := False\<rparr>) v d = Inl OverflowError)
   \<and> (\<not> fle d (Fin 0) \<and> fdiv v d = Inr q \<and> fmul q (Fin 100) = NInf \<longrightarrow>
        to_signed_steps_5pct (self\<lparr>clamp_to_100 := True\<rparr>) v d = Inr (- 20)
        \<and> to_signed_steps_5pct (self\<lparr>clamp_to_100 := False\<rparr>) v d = Inl OverflowError)
   \<and> (\<not> fle d (Fin 0) \<and> fdiv v d = Inr q \<and> fmul q (Fin 100) = NaN \<longrightarrow>
        to_signed_steps_5pct (self\<lparr>clamp_to_100 := True\<rparr>) v d = Inr 20
        \<and> to_signed_steps_5pct (self\<lparr>clamp_to_100 := False\<rparr>) v d = Inl ValueError)"
proof -
  have t: "clamp_to_100 (self\<lparr>clamp_to_100 := True\<rparr>)"
    and f: "\<not> clamp_to_100 (self\<lparr>clamp_to_100 := False\<rparr>)"
    by simp_all
  from clamp_flag_agree [of self v d s]
    to_steps_off_returns [OF f, of d v q p]
    to_steps_on_nonfinite [OF t, of d v q]
    to_steps_raises [OF f, of d v q]
  show ?thesis by blast
qed

theorem clamp_flag_no_effect_witness:
  "to_signed_steps_5pct ((default_chart []) \<lparr>clamp_to_100 := False\<rparr>) (Fin 500) (Fin 100) = Inr 20
   \<and> to_signed_steps_5pct ((default_chart []) \<lparr>clamp_to_100 := True\<rparr>) (Fin 500) (Fin 100) = Inr 20
   \<and> \<not> fle (Fin 100) (Fin 0)
   \<and> fdiv (Fin 500) (Fin 100) = Inr (Fin 5) \<and> fmul (Fin 5) (Fin 100) = Fin 500
   \<and> \<not> fle (Fin 1) (Fin 0)
   \<and> fdiv PInf (Fin 1) = Inr PInf \<and> fmul PInf (Fin 100) = PInf
   \<and> to_signed_steps_5pct ((default_chart []) \<lparr>clamp_to_100 := True\<rparr>) PInf (Fin 1) = Inr 20
   \<and> to_signed_steps_5pct ((default_chart []) \<lparr>clamp_to_100 := False\<rparr>) PInf (Fin 1)
       = Inl OverflowError
   \<and> fdiv NInf (Fin 1) = Inr NInf \<and> fmul NInf (Fin 100) = NInf
   \<and> to_signed_steps_5pct ((default_chart []) \<lparr>clamp_to_100 := True\<rparr>) NInf (Fin 1) = Inr (- 20)
   \<and> to_signed_steps_5pct ((default_chart []) \<lparr>clamp_to_100 := False\<rparr>) NInf (Fin 1)
       = Inl OverflowError
   \<and> fdiv NaN (Fin 1) = Inr NaN \<and> fmul NaN (Fin 100) = NaN
   \<and> to_signed_steps_5pct ((default_chart []) \<lparr>clamp_to_100 := True\<rparr>) NaN (Fin 1) = Inr 20
   \<and> to_signed_steps_5pct ((default_chart []) \<lparr>clamp_to_100 := False\<rparr>) NaN (Fin 1)
       = Inl ValueError"
proof -
  define c where "c = default_chart []"
  have n: "\<not> fle (Fin 100) (Fin 0)" "\<not> fle (Fin 1) (Fin 0)"
    by simp_all
  have d1: "fdiv (Fin 500) (Fin 100) = Inr (Fin 5)" "fmul (Fin 5) (Fin 100) = Fin 500"
    by (simp_all add: fl_num)
  have b: "fdiv PInf (Fin 1) = Inr PInf" "fmul PInf (Fin 100) = PInf"
    "fdiv NInf (Fin 1) = Inr NInf" "fmul NInf (Fin 100) = NInf"
    "fdiv NaN (Fin 1) = Inr NaN" "fmul NaN (Fin 100) = NaN"
    by (simp_all add: inf_of_def)
  have u: "to_signed_steps_5pct (c\<lparr>clamp_to_100 := False\<rparr>) (Fin 500) (Fin 100) = Inr 20"
    by (simp add: to_signed_steps_5pct_def bindE_def fl_num clamp_int_def)
  have w1: "to_signed_steps_5pct (c\<lparr>clamp_to_100 := True\<rparr>) (Fin 500) (Fin 100) = Inr 20"
    using clamp_flag_no_effect [of c "Fin 500" "Fin 100" 20] u by blast
  have w2: "to_signed_steps_5pct (c\<lparr>clamp_to_100 := True\<rparr>) PInf (Fin 1) = Inr 20
      \<and> to_signed_steps_5pct (c\<lparr>clamp_to_100 := False\<rparr>) PInf (Fin 1) = Inl OverflowError"
    using clamp_flag_no_effect [of c PInf "Fin 1" _ PInf] n(2) b(1,2) by blast
  have w3: "to_signed_steps_5pct (c\<lparr>clamp_to_100 := True\<rparr>) NInf (Fin 1) = Inr (- 20)
      \<and> to_signed_steps_5pct (c\<lparr>clamp_to_100 := False\<rparr>) NInf (Fin 1) = Inl OverflowError"
    using clamp_flag_no_effect [of c NInf "Fin 1" _ NInf] n(2) b(3,4) by blast
  have w4: "to_signed_steps_5pct (c\<lparr>clamp_to_100 := True\<rparr>) NaN (Fin 1) = Inr 20
      \<and> to_signed_steps_5pct (c\<lparr>clamp_to_100 := False\<rparr>) NaN (Fin 1) = Inl ValueError"
    using clamp_flag_no_effect [of c NaN "Fin 1" _ NaN] n(2) b(5,6) by blast
  from n d1 b u w1 w2 w3 w4 show ?thesis
    unfolding c_def by (simp only: simp_thms)
qed

text \<open>
  The claim as stated fails at an infinite value and at a NaN value: the clamp-on
  conversion returns \<open>20\<close>, the clamp-off conversion raises OverflowError and ValueError.
\<close>

theorem clamp_flag_counterexample:
  "to_signed_steps_5pct ((default_chart []) \<lparr>clamp_to_100 := True\<rparr>) PInf (Fin 1) = Inr 20
   \<and> to_signed_steps_5pct ((default_chart []) \<lparr>clamp_to_100 := False\<rparr>) PInf (Fin 1)
       = Inl OverflowError
   \<and> to_signed_steps_5pct ((default_chart []) \<lparr>clamp_to_100 := True\<rparr>) NaN (Fin 1) = Inr 20
   \<and> to_signed_steps_5pct ((default_chart []) \<lparr>clamp_to_100 := False\<rparr>) NaN (Fin 1)
       = Inl ValueError"
  by (simp add: to_signed_steps_5pct_def bindE_def inf_of_def py_max_def py_min_def
      fl_num clamp_int_def)

section \<open>Denominator, negative rows, width and the empty chart\<close>

lemma resolve_supplied_nonpos:
  "fle m (Fin 0) \<Longrightarrow> resolve_denom (self\<lparr>max_value := Some m\<rparr>) vals = Inr (Fin 1)"
  by (simp add: resolve_denom_def bindE_def)

lemma resolve_supplied_pos:
  "\<not> fle m (Fin 0) \<Longrightarrow> resolve_denom (self\<lparr>max_value := Some m\<rparr>) vals = Inr m"
  by (simp add: resolve_denom_def bindE_def)

lemma Max_insert_max:
  "finite S \<Longrightarrow> Max (insert (max a b) S) = Max (insert a (insert b S))"
  for a b :: "'a :: linorder"
  by (cases "S = {}") (simp_all add: max.assoc)

lemma py_max_from_fin: "py_max_from (Fin c) (map Fin xs) = Fin (Max (insert c (set xs)))"
proof (induction xs arbitrary: c)
  case Nil
  show ?case by simp
next
  case (Cons x xs)
  have "py_max (Fin c) (Fin x) = Fin (max c x)" by (simp add: py_max_def max_def)
  then have "py_max_from (Fin c) (map Fin (x # xs)) = Fin (Max (insert (max c x) (set xs)))"
    using Cons.IH [of "max c x"] by simp
  also have "Max (insert (max c x) (set xs)) = Max (insert c (set (x # xs)))"
    using Max_insert_max [of "set xs" c x] by simp
  finally show ?case .
qed

lemma resolve_computed:
  assumes "rs \<noteq> []"
  shows "resolve_denom (self\<lparr>max_value := None\<rparr>) (map Fin rs)
         = Inr (if Max (set (map abs rs)) \<le> 0 then Fin 1 else Fin (Max (set (map abs rs))))"
proof -
  obtain r rs' where rs: "rs = r # rs'" using assms by (cases rs) auto
  have "map fabs (map Fin rs') = map Fin (map abs rs')" by simp
  then have "py_max_from (Fin \<bar>r\<bar>) (map fabs (map Fin rs')) = Fin (Max (insert \<bar>r\<bar> (set (map abs rs'))))"
    using py_max_from_fin [of "\<bar>r\<bar>" "map abs rs'"] by (simp only:)
  then have "py_max_list (map fabs (map Fin rs)) = Inr (Fin (Max (set (map abs rs))))"
    by (simp add: rs)
  then show ?thesis by (simp add: resolve_denom_def bindE_def)
qed

lemma fold_max_neg:
  "fold (\<lambda>s m. if s < 0 then max m (- s) else m) steps m
     = Max (insert m ((\<lambda>s. - s) ` {s \<in> set steps. s < (0::int)}))"
proof (induction steps arbitrary: m)
  case Nil
  show ?case by simp
next
  case (Cons x xs)
  show ?case
  proof (cases "x < 0")
    case True
    then have s: "{s \<in> set (x # xs). s < 0} = insert x {s \<in> set xs. s < 0}" by auto
    have "fold (\<lambda>s m. if s < 0 then max m (- s) else m) (x # xs) m
        = Max (insert (max m (- x)) ((\<lambda>s. - s) ` {s \<in> set xs. s < 0}))"
      using True Cons.IH [of "max m (- x)"] by simp
    also have "\<dots> = Max (insert m (insert (- x) ((\<lambda>s. - s) ` {s \<in> set xs. s < 0})))"
      by (rule Max_insert_max) simp
    finally show ?thesis by (simp only: s image_insert)
  next
    case False
    then have s: "{s \<in> set (x # xs). s < 0} = {s \<in> set xs. s < 0}" by auto
    from False Cons.IH [of m] show ?thesis by (simp only: s fold_Cons comp_apply if_False)
  qed
qed

lemma neg_image: "(\<lambda>s. - s) ` {s \<in> A. s < (0::int)} = abs ` {s \<in> A. s < 0}"
  by (rule image_cong) auto

lemma max_neg_steps_some:
  assumes "\<exists>s\<in>set steps. s < 0"
  shows "max_neg_steps_of steps = Max (abs ` {s \<in> set steps. s < 0})"
proof -
  from assms have ne: "abs ` {s \<in> set steps. s < 0} \<noteq> {}" by auto
  have fin: "finite (abs ` {s \<in> set steps. s < 0})" by simp
  have "0 \<le> Max (abs ` {s \<in> set steps. s < 0})"
    using ne fin by (auto simp: Max_ge_iff)
  with ne fin fold_max_neg [of steps 0] show ?thesis
    by (simp only: max_neg_steps_of_def neg_image) simp
qed

lemma max_neg_steps_none:
  assumes "\<forall>s\<in>set steps. 0 \<le> s"
  shows "max_neg_steps_of steps = 0"
proof -
  from assms have "{s \<in> set steps. s < 0} = {}" by auto
  with fold_max_neg [of steps 0] show ?thesis by (simp add: max_neg_steps_of_def)
qed

lemma mapE_length: "mapE f xs = Inr ys \<Longrightarrow> length ys = length xs"
  by (induction xs arbitrary: ys) (auto simp: bindE_def split: sum.splits)

lemma neg_rows_nonneg: "0 \<le> neg_rows_of steps"
proof -
  have "0 \<le> Max (insert 0 ((\<lambda>s. - s) ` {s \<in> set steps. s < (0::int)}))"
    by (rule Max_ge) simp_all
  then have "0 \<le> max_neg_steps_of steps"
    using fold_max_neg [of steps 0] by (simp add: max_neg_steps_of_def)
  then have "(0::rat) \<le> of_int (max_neg_steps_of steps) / 2" by simp
  then have "0 \<le> \<lceil>(of_int (max_neg_steps_of steps) :: rat) / 2\<rceil>" by linarith
  then show ?thesis by (simp add: neg_rows_of_def)
qed

lemma max_neg_steps_min:
  assumes "m \<in> set steps" "m < 0" "\<forall>s\<in>set steps. m \<le> s"
  shows "max_neg_steps_of steps = - m"
proof -
  have "Max (abs ` {s \<in> set steps. s < 0}) = \<bar>m\<bar>"
  proof (rule Max_eqI)
    show "finite (abs ` {s \<in> set steps. s < 0})" by simp
    show "\<bar>m\<bar> \<in> abs ` {s \<in> set steps. s < 0}" using assms(1,2) by blast
    fix y assume "y \<in> abs ` {s \<in> set steps. s < 0}"
    then obtain s where "s \<in> set steps" "s < 0" "y = \<bar>s\<bar>" by auto
    with assms(2,3) show "y \<le> \<bar>m\<bar>" by fastforce
  qed
  moreover have "\<exists>s\<in>set steps. s < 0" using assms(1,2) by blast
  ultimately show ?thesis using assms(2) max_neg_steps_some [of steps] by simp
qed

text \<open>
  Claim C5, as amended. A supplied denominator that is not positive resolves to \<open>1.0\<close>,
  whatever the data; a supplied positive one is used as it is; without a supplied one the
  denominator is the largest magnitude of the (finite) inputs, or \<open>1.0\<close> when that is
  not positive.
\<close>

theorem resolve_denom_spec:
  "(fle m (Fin 0) \<longrightarrow> resolve_denom (self\<lparr>max_value := Some m\<rparr>) vals = Inr (Fin 1))
   \<and> (\<not> fle m (Fin 0) \<longrightarrow> resolve_denom (self\<lparr>max_value := Some m\<rparr>) vals = Inr m)
   \<and> (rs \<noteq> [] \<longrightarrow>
        resolve_denom (self\<lparr>max_value := None\<rparr>) (map Fin rs)
          = Inr (if Max (set (map abs rs)) \<le> 0 then Fin 1 else Fin (Max (set (map abs rs)))))"
  using resolve_supplied_nonpos [of m self vals] resolve_supplied_pos [of m self vals]
    resolve_computed [of rs self]
  by blast

theorem resolve_denom_spec_witness:
  "fle (Fin (- 5)) (Fin 0)
   \<and> resolve_denom ((default_chart []) \<lparr>max_value := Some (Fin (- 5))\<rparr>) [Fin 3, Fin 7]
       = Inr (Fin 1)
   \<and> \<not> fle (Fin 50) (Fin 0)
   \<and> resolve_denom ((default_chart []) \<lparr>max_value := Some (Fin 50)\<rparr>) [Fin 3, Fin 7]
       = Inr (Fin 50)
   \<and> [3, - 7 :: rat] \<noteq> []
   \<and> resolve_denom ((default_chart []) \<lparr>max_value := None\<rparr>) (map Fin [3, - 7]) = Inr (Fin 7)"
  using resolve_denom_spec [of "Fin (- 5)" "default_chart []" "[Fin 3, Fin 7]" "[3, - 7]"]
    resolve_denom_spec [of "Fin 50" "default_chart []" "[Fin 3, Fin 7]" "[3, - 7]"]
  by simp

text \<open>
  The claim as stated fails at \<open>max_value = -5\<close> with the values 3 and 7: the denominator is
  \<open>1.0\<close>, not the largest magnitude 7 that the same values give without \<open>max_value\<close>.
\<close>

theorem resolve_denom_counterexample:
  "resolve_denom ((default_chart [NInt 3, NInt 7]) \<lparr>max_value := Some (Fin (- 5))\<rparr>)
      [Fin 3, Fin 7] = Inr (Fin 1)
   \<and> resolve_denom (default_chart [NInt 3, NInt 7]) [Fin 3, Fin 7] = Inr (Fin 7)"
  by (simp add: resolve_denom_def bindE_def default_chart_def py_max_def)

text \<open>
  Claim C8. A chart without values renders as the placeholder \<open>(no data)\<close> alone, whatever
  the rest of the configuration, and raises nothing.
\<close>

theorem render_no_data:
  "render E (self\<lparr>values_in := []\<rparr>) = Inr (asc ''(no data)'')"
  by (simp add: render_def bindE_def)

text \<open>
  Claim C10. An explicit width \<open>w\<close> gives the column count \<open>max(20, w)\<close>, so never less
  than 20; the width of the terminal has the same floor.
\<close>

theorem term_cols_explicit_width:
  "term_cols E (self\<lparr>width := Some w\<rparr>) = max 20 w
   \<and> 20 \<le> term_cols E (self\<lparr>width := Some w\<rparr>)
   \<and> term_cols E (self\<lparr>width := None\<rparr>) = max 20 (term_columns E)"
  by (simp add: term_cols_def)

section \<open>Visible length and truncation\<close>

lemma vis_plain: "c \<noteq> ESC \<Longrightarrow> visible_chars (c # xs) = c # visible_chars xs"
  by simp

lemma vis_seq:
  assumes "LM \<notin> set ps"
  shows "visible_chars (ESC # LBR # ps @ LM # xs) = visible_chars xs"
proof -
  have "dropWhile (\<lambda>x. x \<noteq> LM) (ps @ LM # xs) = dropWhile (\<lambda>x. x \<noteq> LM) (LM # xs)"
    using assms by (intro dropWhile_append2) auto
  then show ?thesis by simp
qed


lemma vis_styled:
  "list_all tok_ok ts \<Longrightarrow> visible_chars (styled ts @ rest) = plain_chars ts @ visible_chars rest"
proof (induction ts)
  case Nil
  show ?case by (simp add: styled_def)
next
  case (Cons t ts)
  then have ih: "visible_chars (styled ts @ rest) = plain_chars ts @ visible_chars rest" by simp
  show ?case
  proof (cases t)
    case (Plain c)
    with Cons.prems have "c \<noteq> ESC" by simp
    with ih Plain show ?thesis by (simp add: styled_def)
  next
    case (Sgr ps)
    with Cons.prems have "LM \<notin> set ps" by simp
    from vis_seq [OF this, of "styled ts @ rest"] ih Sgr show ?thesis
      by (simp add: styled_def del: visible_chars.simps)
  qed
qed

lemma visible_len_styled:
  "list_all tok_ok ts \<Longrightarrow> visible_len (styled ts @ rest) = int (length (plain_chars ts)) + visible_len rest"
  by (simp add: visible_len_def vis_styled)


lemma trunc_hd: "trunc_loop s vis mc \<noteq> [] \<Longrightarrow> hd (trunc_loop s vis mc) = hd s"
  by (cases s) (auto split: if_splits)

lemma trunc_nonempty: "trunc_loop s vis mc \<noteq> [] \<Longrightarrow> s \<noteq> []"
  by (cases s) auto

lemma closed_before_m: "escapes_closed ys \<Longrightarrow> escapes_closed (xs @ LM # ys)"
proof (induction xs)
  case Nil
  then show ?case by simp
next
  case (Cons x xs)
  then show ?case by (cases xs) auto
qed

lemma trunc_closed: "escapes_closed (trunc_loop s vis mc)"
proof (induction s vis mc rule: trunc_loop.induct)
  case (1 vis mc)
  show ?case by simp
next
  case (2 c cs vis mc)
  show ?case
  proof (cases "vis < mc")
    case False
    then show ?thesis by simp
  next
    case v: True
    show ?thesis
    proof (cases "c = ESC \<and> cs \<noteq> [] \<and> hd cs = LBR")
      case o: True
      show ?thesis
      proof (cases "dropWhile (\<lambda>x. x \<noteq> LM) (tl cs) \<noteq> []")
        case True
        with v o have ih: "escapes_closed (trunc_loop (tl (dropWhile (\<lambda>x. x \<noteq> LM) (tl cs))) vis mc)"
          by (intro "2.IH"(1)) simp_all
        have "trunc_loop (c # cs) vis mc =
           (c # hd cs # takeWhile (\<lambda>x. x \<noteq> LM) (tl cs)) @ LM #
              trunc_loop (tl (dropWhile (\<lambda>x. x \<noteq> LM) (tl cs))) vis mc"
          using v o True by simp
        with closed_before_m [OF ih] show ?thesis by (simp only:)
      next
        case False
        with v o show ?thesis by simp
      qed
    next
      case n: False
      with v have ih: "escapes_closed (trunc_loop cs (vis + 1) mc)"
        by (intro "2.IH"(2)) simp_all
      have eq: "trunc_loop (c # cs) vis mc = c # trunc_loop cs (vis + 1) mc"
        using v n by auto
      have "\<not> (c = ESC \<and> trunc_loop cs (vis + 1) mc \<noteq> [] \<and> hd (trunc_loop cs (vis + 1) mc) = LBR)"
        using n trunc_hd [of cs "vis + 1" mc] trunc_nonempty [of cs "vis + 1" mc] by auto
      with ih show ?thesis by (simp only: eq escapes_closed.simps) blast
    qed
  qed
qed

text \<open>
  Claim C2. \<open>truncate_visible\<close> never emits a partial escape sequence (on any text
  at all: every \<open>ESC [\<close> of its result is closed by an \<open>m\<close>); the visible length of a
  text made of plain characters and complete sequences is the count of its plain
  characters; and \<open>max_cols <= 0\<close> gives the empty string.
\<close>

theorem escape_safety:
  "escapes_closed (truncate_visible s max_cols)
   \<and> (list_all tok_ok ts \<longrightarrow> visible_len (styled ts) = int (length (plain_chars ts)))
   \<and> (max_cols \<le> 0 \<longrightarrow> truncate_visible s max_cols = [])"
proof -
  have a: "escapes_closed (truncate_visible s max_cols)"
    using trunc_closed [of s 0 max_cols] by (simp add: truncate_visible_def)
  have b: "list_all tok_ok ts \<longrightarrow> visible_len (styled ts) = int (length (plain_chars ts))"
    using visible_len_styled [of ts "[]"] by (simp add: visible_len_def)
  have c: "max_cols \<le> 0 \<longrightarrow> truncate_visible s max_cols = []"
    by (simp add: truncate_visible_def)
  from a b c show ?thesis by blast
qed

theorem escape_safety_witness:
  "truncate_visible [97, ESC, LBR, 51, 49, LM, 98, 99, ESC, LBR, 48, LM, 100] 2
     = [97, ESC, LBR, 51, 49, LM, 98]
   \<and> escapes_closed [97, ESC, LBR, 51, 49, LM, 98]
   \<and> truncate_visible [97, ESC, LBR, 51, 49, LM, 98, ESC, LBR, 48] 5
     = [97, ESC, LBR, 51, 49, LM, 98]
   \<and> list_all tok_ok [Plain 97, Sgr [51, 49], Plain 98, Sgr [48]]
   \<and> visible_len (styled [Plain 97, Sgr [51, 49], Plain 98, Sgr [48]]) = 2
   \<and> (0::int) \<le> 0
   \<and> truncate_visible [97, 98] 0 = []"
proof -
  have t: "truncate_visible [97, ESC, LBR, 51, 49, LM, 98, 99, ESC, LBR, 48, LM, 100] 2
     = [97, ESC, LBR, 51, 49, LM, 98]"
    "truncate_visible [97, ESC, LBR, 51, 49, LM, 98, ESC, LBR, 48] 5
     = [97, ESC, LBR, 51, 49, LM, 98]"
    by (simp_all add: truncate_visible_def)
  have k: "list_all tok_ok [Plain 97, Sgr [51, 49], Plain 98, Sgr [48]]"
    by simp
  from t k
    escape_safety [of "[97, ESC, LBR, 51, 49, LM, 98, 99, ESC, LBR, 48, LM, 100]" 2
      "[Plain 97, Sgr [51, 49], Plain 98, Sgr [48]]"]
    escape_safety [of "[97, 98]" 0 "[]"]
  show ?thesis by simp
qed




section \<open>Rectangular frames\<close>

lemma vis_noesc: "ESC \<notin> set xs \<Longrightarrow> visible_chars (xs @ rest) = xs @ visible_chars rest"
  by (induction xs) auto

lemma visible_len_noesc:
  "ESC \<notin> set xs \<Longrightarrow> visible_len (xs @ rest) = int (length xs) + visible_len rest"
  by (simp add: visible_len_def vis_noesc)

lemma visible_len_wrap:
  assumes "sgr_ok sgr" "ESC \<notin> set text"
  shows "visible_len (sgr_wrap sgr text @ rest) = int (length text) + visible_len rest"
proof (cases "sgr = None \<or> sgr = Some []")
  case True
  then have "sgr_wrap sgr text = text" by (auto simp: sgr_wrap_def)
  with assms(2) show ?thesis by (simp add: visible_len_noesc)
next
  case False
  then obtain p where p: "sgr = Some p" "p \<noteq> []" by (cases sgr) auto
  with assms(1) have m: "LM \<notin> set p" by simp
  have "sgr_wrap sgr text @ rest = ESC # LBR # p @ LM # (text @ ESC # LBR # [48] @ LM # rest)"
    using p by (simp add: sgr_wrap_def)
  then have "visible_chars (sgr_wrap sgr text @ rest)
      = visible_chars (text @ ESC # LBR # [48] @ LM # rest)"
    using vis_seq [OF m] by (simp only:)
  also have "\<dots> = text @ visible_chars (ESC # LBR # [48] @ LM # rest)"
    using assms(2) by (rule vis_noesc)
  also have "visible_chars (ESC # LBR # [48] @ LM # rest) = visible_chars rest"
    by (rule vis_seq) simp
  finally show ?thesis by (simp add: visible_len_def)
qed

lemma visible_len_nil: "visible_len [] = 0"
  by (simp add: visible_len_def)

lemma visible_len_nonneg: "0 \<le> visible_len s"
  by (simp add: visible_len_def)

lemma str_times_single: "str_times [c] n = replicate (nat n) c"
  by (simp add: str_times_def)

lemma border_chars_props:
  "length (cs_tl (border_chars self)) = 1 \<and> ESC \<notin> set (cs_tl (border_chars self))
   \<and> length (cs_tr (border_chars self)) = 1 \<and> ESC \<notin> set (cs_tr (border_chars self))
   \<and> length (cs_bl (border_chars self)) = 1 \<and> ESC \<notin> set (cs_bl (border_chars self))
   \<and> length (cs_br (border_chars self)) = 1 \<and> ESC \<notin> set (cs_br (border_chars self))
   \<and> length (cs_v (border_chars self)) = 1 \<and> ESC \<notin> set (cs_v (border_chars self))
   \<and> (\<exists>h. cs_h (border_chars self) = [h] \<and> h \<noteq> ESC)"
  by (simp add: border_chars_def)

lemma frame_len:
  assumes "sgr_ok bs" "ESC \<notin> set a" "length a = 1" "ESC \<notin> set b" "length b = 1"
    "h \<noteq> ESC" "0 \<le> W"
  shows "visible_len (sgr_wrap bs (a @ str_times [h] (W + 2) @ b)) = W + 4"
proof -
  have e: "ESC \<notin> set (a @ str_times [h] (W + 2) @ b)"
    using assms(2,4,6) by (auto simp: str_times_single)
  have l: "int (length (a @ str_times [h] (W + 2) @ b)) = W + 4"
    using assms(3,5,7) by (simp add: str_times_single)
  from visible_len_wrap [OF assms(1) e, of "[]"] l show ?thesis
    by (simp add: visible_len_nil)
qed

lemma interior_len:
  assumes "sgr_ok bs" "ESC \<notin> set v" "length v = 1" "list_all tok_ok ts"
    "visible_len (styled ts) \<le> W"
  shows "visible_len (sgr_wrap bs v @ [SP] @ styled ts
           @ str_times [SP] (W - visible_len (styled ts)) @ [SP] @ sgr_wrap bs v) = W + 4"
proof -
  define pad where "pad = str_times [SP] (W - visible_len (styled ts))"
  have pl: "int (length pad) = W - visible_len (styled ts)"
    using assms(5) by (simp add: pad_def str_times_single)
  have pe: "ESC \<notin> set (pad @ [SP])"
    by (auto simp: pad_def str_times_single)
  have r: "visible_len (sgr_wrap bs v) = 1"
    using visible_len_wrap [OF assms(1,2), of "[]"] assms(3) by (simp add: visible_len_nil)
  have t: "visible_len (styled ts) = int (length (plain_chars ts))"
    using visible_len_styled [OF assms(4), of "[]"] by (simp add: visible_len_nil)
  have "visible_len (sgr_wrap bs v @ [SP] @ styled ts @ pad @ [SP] @ sgr_wrap bs v)
      = 1 + visible_len ([SP] @ (styled ts @ pad @ [SP] @ sgr_wrap bs v))"
    using visible_len_wrap [OF assms(1,2), of "[SP] @ styled ts @ pad @ [SP] @ sgr_wrap bs v"]
      assms(3) by simp
  also have "visible_len ([SP] @ (styled ts @ pad @ [SP] @ sgr_wrap bs v))
      = 1 + visible_len (styled ts @ ((pad @ [SP]) @ sgr_wrap bs v))"
    using visible_len_noesc [of "[SP]" "styled ts @ pad @ [SP] @ sgr_wrap bs v"] by simp
  also have "visible_len (styled ts @ ((pad @ [SP]) @ sgr_wrap bs v))
      = visible_len (styled ts) + visible_len ((pad @ [SP]) @ sgr_wrap bs v)"
    using visible_len_styled [OF assms(4), of "(pad @ [SP]) @ sgr_wrap bs v"] t by simp
  also have "visible_len ((pad @ [SP]) @ sgr_wrap bs v)
      = int (length (pad @ [SP])) + visible_len (sgr_wrap bs v)"
    using pe by (rule visible_len_noesc)
  finally show ?thesis using pl r by (simp add: pad_def)
qed

lemma add_border_unfold:
  assumes "border_enabled self" "lines \<noteq> []"
  shows "add_border self lines =
     [sgr_wrap (border_sgr self)
        (cs_tl (border_chars self)
         @ str_times (cs_h (border_chars self)) (Max (set (map visible_len lines)) + 2)
         @ cs_tr (border_chars self))]
     @ map (\<lambda>ln. sgr_wrap (border_sgr self) (cs_v (border_chars self)) @ [SP] @ ln
                  @ str_times [SP] (Max (set (map visible_len lines)) - visible_len ln)
                  @ [SP] @ sgr_wrap (border_sgr self) (cs_v (border_chars self))) lines
     @ [sgr_wrap (border_sgr self)
        (cs_bl (border_chars self)
         @ str_times (cs_h (border_chars self)) (Max (set (map visible_len lines)) + 2)
         @ cs_br (border_chars self))]"
  using assms by (simp add: add_border_def Let_def)

lemma add_border_rect:
  assumes "border_enabled self" "tss \<noteq> []" "\<forall>ts\<in>set tss. list_all tok_ok ts"
    "sgr_ok (border_sgr self)"
  shows "\<forall>l\<in>set (add_border self (map styled tss)).
           visible_len l = Max (set (map visible_len (map styled tss))) + 4"
proof -
  define W where "W = Max (set (map visible_len (map styled tss)))"
  have le: "visible_len (styled ts) \<le> W" if "ts \<in> set tss" for ts
    unfolding W_def using that by (intro Max_ge) auto
  obtain t0 where "t0 \<in> set tss" using assms(2) by (cases tss) auto
  then have W0: "0 \<le> W"
    using le [of t0] visible_len_nonneg [of "styled t0"] by linarith
  from border_chars_props [of self] obtain h where
    h: "cs_h (border_chars self) = [h]" "h \<noteq> ESC" by blast
  have top: "visible_len (sgr_wrap (border_sgr self)
        (cs_tl (border_chars self) @ str_times (cs_h (border_chars self)) (W + 2)
         @ cs_tr (border_chars self))) = W + 4"
    unfolding h(1) using border_chars_props [of self] h(2) W0 assms(4)
    by (intro frame_len) simp_all
  have bot: "visible_len (sgr_wrap (border_sgr self)
        (cs_bl (border_chars self) @ str_times (cs_h (border_chars self)) (W + 2)
         @ cs_br (border_chars self))) = W + 4"
    unfolding h(1) using border_chars_props [of self] h(2) W0 assms(4)
    by (intro frame_len) simp_all
  have mid: "visible_len (sgr_wrap (border_sgr self) (cs_v (border_chars self)) @ [SP]
         @ styled ts @ str_times [SP] (W - visible_len (styled ts)) @ [SP]
         @ sgr_wrap (border_sgr self) (cs_v (border_chars self))) = W + 4"
    if "ts \<in> set tss" for ts
    using border_chars_props [of self] assms(3,4) that le [OF that]
    by (intro interior_len) simp_all
  have ne: "map styled tss \<noteq> []" using assms(2) by simp
  show ?thesis
    unfolding add_border_unfold [OF assms(1) ne] W_def [symmetric]
    using top bot mid by auto
qed

lemma add_border_length:
  assumes "border_enabled self" "lines \<noteq> []"
  shows "length (add_border self lines) = length lines + 2"
  unfolding add_border_unfold [OF assms] by simp

lemma vis_wrap:
  assumes "sgr_ok sgr" "ESC \<notin> set text"
  shows "visible_chars (sgr_wrap sgr text @ rest) = text @ visible_chars rest"
proof (cases "sgr = None \<or> sgr = Some []")
  case True
  then have "sgr_wrap sgr text = text" by (auto simp: sgr_wrap_def)
  with assms(2) show ?thesis by (simp add: vis_noesc)
next
  case False
  then obtain p where p: "sgr = Some p" "p \<noteq> []" by (cases sgr) auto
  with assms(1) have m: "LM \<notin> set p" by simp
  have "sgr_wrap sgr text @ rest = ESC # LBR # p @ LM # (text @ ESC # LBR # [48] @ LM # rest)"
    using p by (simp add: sgr_wrap_def)
  then have "visible_chars (sgr_wrap sgr text @ rest)
      = visible_chars (text @ ESC # LBR # [48] @ LM # rest)"
    using vis_seq [OF m] by (simp only:)
  also have "\<dots> = text @ visible_chars (ESC # LBR # [48] @ LM # rest)"
    using assms(2) by (rule vis_noesc)
  also have "visible_chars (ESC # LBR # [48] @ LM # rest) = visible_chars rest"
    by (rule vis_seq) simp
  finally show ?thesis .
qed

lemma frame_chars:
  assumes "sgr_ok bs" "ESC \<notin> set a" "ESC \<notin> set b" "h \<noteq> ESC"
  shows "visible_chars (sgr_wrap bs (a @ str_times [h] n @ b)) = a @ str_times [h] n @ b"
proof -
  have e: "ESC \<notin> set (a @ str_times [h] n @ b)"
    using assms(2,3,4) by (auto simp: str_times_single)
  from vis_wrap [OF assms(1) e, of "[]"] show ?thesis by simp
qed

lemma interior_chars:
  assumes "sgr_ok bs" "ESC \<notin> set v" "list_all tok_ok ts"
  shows "visible_chars (sgr_wrap bs v @ [SP] @ styled ts @ str_times [SP] n @ [SP] @ sgr_wrap bs v)
         = v @ [SP] @ plain_chars ts @ replicate (nat n) SP @ [SP] @ v"
proof -
  define pad where "pad = str_times [SP] n"
  have pe: "ESC \<notin> set (pad @ [SP])"
    by (auto simp: pad_def str_times_single)
  have r: "visible_chars (sgr_wrap bs v) = v"
    using vis_wrap [OF assms(1,2), of "[]"] by simp
  have "visible_chars (sgr_wrap bs v @ [SP] @ styled ts @ pad @ [SP] @ sgr_wrap bs v)
      = v @ visible_chars ([SP] @ (styled ts @ pad @ [SP] @ sgr_wrap bs v))"
    using vis_wrap [OF assms(1,2), of "[SP] @ styled ts @ pad @ [SP] @ sgr_wrap bs v"] by simp
  also have "visible_chars ([SP] @ (styled ts @ pad @ [SP] @ sgr_wrap bs v))
      = [SP] @ visible_chars (styled ts @ ((pad @ [SP]) @ sgr_wrap bs v))"
    using vis_noesc [of "[SP]" "styled ts @ pad @ [SP] @ sgr_wrap bs v"] by simp
  also have "visible_chars (styled ts @ ((pad @ [SP]) @ sgr_wrap bs v))
      = plain_chars ts @ visible_chars ((pad @ [SP]) @ sgr_wrap bs v)"
    using assms(3) by (rule vis_styled)
  also have "visible_chars ((pad @ [SP]) @ sgr_wrap bs v)
      = (pad @ [SP]) @ visible_chars (sgr_wrap bs v)"
    using pe by (rule vis_noesc)
  finally show ?thesis using r by (simp add: pad_def str_times_single)
qed

lemma replicate_small:
  "replicate 2 x = [x, x]" "replicate 3 x = [x, x, x]" "replicate 4 x = [x, x, x, x]"
  "replicate 5 x = [x, x, x, x, x]"
  by (simp_all add: numeral_eq_Suc)

lemma length_4: "length xs = 4 \<Longrightarrow> \<exists>a b c d. xs = [a, b, c, d]"
  by (auto simp: length_Suc_conv numeral_eq_Suc)

text \<open>
  Claim C3, as amended. With the border enabled, a border SGR parameter that holds no
  \<open>m\<close>, and a non-empty list of content lines, each made of plain characters and complete
  sequences, every line of the bordered output has the same visible length: the
  largest visible length of a content line plus 4. The output is a top line, one line
  for each content line, and a bottom line. The top and bottom lines show a corner, the
  horizontal glyph as many times as the width plus 2, and a corner. The line of a content
  line is the left border glyph, a space, the content line, the spaces that pad it to
  the largest visible length, a space and the right border glyph, the glyphs alone
  wrapped in the border SGR; so it shows the glyph, a space, the plain characters of
  the content line, the padding, a space and the glyph.
\<close>

theorem border_rectangular:
  assumes "border_enabled self" "tss \<noteq> []" "\<forall>ts\<in>set tss. list_all tok_ok ts"
    "sgr_ok (border_sgr self)"
  shows "let out = add_border self (map styled tss);
             W = Max (set (map visible_len (map styled tss)));
             cs = border_chars self
         in (\<forall>l\<in>set out. visible_len l = W + 4)
          \<and> length out = length tss + 2
          \<and> visible_chars (out ! 0) = cs_tl cs @ str_times (cs_h cs) (W + 2) @ cs_tr cs
          \<and> (\<forall>i<length tss.
                out ! Suc i = sgr_wrap (border_sgr self) (cs_v cs) @ [SP] @ styled (tss ! i)
                    @ str_times [SP] (W - visible_len (styled (tss ! i))) @ [SP]
                    @ sgr_wrap (border_sgr self) (cs_v cs))
          \<and> (\<forall>i<length tss.
                visible_chars (out ! Suc i) = cs_v cs @ [SP] @ plain_chars (tss ! i)
                    @ replicate (nat (W - visible_len (styled (tss ! i)))) SP @ [SP] @ cs_v cs)
          \<and> visible_chars (out ! Suc (length tss))
              = cs_bl cs @ str_times (cs_h cs) (W + 2) @ cs_br cs"
proof -
  define W where "W = Max (set (map visible_len (map styled tss)))"
  define cs where "cs = border_chars self"
  define bs where "bs = border_sgr self"
  define f where "f = (\<lambda>ln. sgr_wrap bs (cs_v cs) @ [SP] @ ln
                  @ str_times [SP] (W - visible_len ln) @ [SP] @ sgr_wrap bs (cs_v cs))"
  define top where "top = sgr_wrap bs (cs_tl cs @ str_times (cs_h cs) (W + 2) @ cs_tr cs)"
  define bot where "bot = sgr_wrap bs (cs_bl cs @ str_times (cs_h cs) (W + 2) @ cs_br cs)"
  have ne: "map styled tss \<noteq> []" using assms(2) by simp
  have out: "add_border self (map styled tss) = [top] @ map f (map styled tss) @ [bot]"
    unfolding add_border_unfold [OF assms(1) ne] W_def cs_def bs_def f_def top_def bot_def ..
  from border_chars_props [of self] obtain h where
    h: "cs_h cs = [h]" "h \<noteq> ESC" unfolding cs_def by blast
  have pr: "ESC \<notin> set (cs_tl cs)" "ESC \<notin> set (cs_tr cs)" "ESC \<notin> set (cs_bl cs)"
    "ESC \<notin> set (cs_br cs)" "ESC \<notin> set (cs_v cs)"
    using border_chars_props [of self] unfolding cs_def by simp_all
  have sg: "sgr_ok bs" using assms(4) by (simp add: bs_def)
  have 1: "\<forall>l\<in>set (add_border self (map styled tss)). visible_len l = W + 4"
    using add_border_rect [OF assms] by (simp add: W_def)
  have 2: "length (add_border self (map styled tss)) = length tss + 2"
    by (simp add: out)
  have 3: "visible_chars (add_border self (map styled tss) ! 0)
           = cs_tl cs @ str_times (cs_h cs) (W + 2) @ cs_tr cs"
    unfolding out h(1) using frame_chars [OF sg pr(1) pr(2) h(2)] by (simp add: top_def h(1))
  have nth: "add_border self (map styled tss) ! Suc i = f (styled (tss ! i))"
    if "i < length tss" for i
    using that by (simp add: out nth_append)
  have 4: "\<forall>i<length tss.
      add_border self (map styled tss) ! Suc i = sgr_wrap bs (cs_v cs) @ [SP] @ styled (tss ! i)
          @ str_times [SP] (W - visible_len (styled (tss ! i))) @ [SP] @ sgr_wrap bs (cs_v cs)"
    using nth by (simp add: f_def)
  have 5: "\<forall>i<length tss.
      visible_chars (add_border self (map styled tss) ! Suc i) = cs_v cs @ [SP] @ plain_chars (tss ! i)
          @ replicate (nat (W - visible_len (styled (tss ! i)))) SP @ [SP] @ cs_v cs"
  proof (intro allI impI)
    fix i assume i: "i < length tss"
    then have "list_all tok_ok (tss ! i)" using assms(3) by simp
    from interior_chars [OF sg pr(5) this, of "W - visible_len (styled (tss ! i))"] nth [OF i]
    show "visible_chars (add_border self (map styled tss) ! Suc i) = cs_v cs @ [SP] @ plain_chars (tss ! i)
          @ replicate (nat (W - visible_len (styled (tss ! i)))) SP @ [SP] @ cs_v cs"
      by (simp add: f_def)
  qed
  have "add_border self (map styled tss) ! Suc (length tss) = bot"
    by (simp add: out nth_append)
  then have 6: "visible_chars (add_border self (map styled tss) ! Suc (length tss))
           = cs_bl cs @ str_times (cs_h cs) (W + 2) @ cs_br cs"
    unfolding h(1) using frame_chars [OF sg pr(3) pr(4) h(2)] by (simp add: bot_def h(1))
  from 1 2 3 4 5 6 show ?thesis
    unfolding Let_def W_def [symmetric] cs_def [symmetric] bs_def [symmetric] by blast
qed

theorem border_rectangular_witness:
  "border_enabled (SetBorder (default_chart []) True (Some [51, 49]) (asc ''double''))
   \<and> [[Plain 97, Plain 98, Plain 99], [Sgr [51, 50], Plain 120, Sgr [48]]] \<noteq> []
   \<and> list_all (list_all tok_ok) [[Plain 97, Plain 98, Plain 99], [Sgr [51, 50], Plain 120, Sgr [48]]]
   \<and> sgr_ok (border_sgr (SetBorder (default_chart []) True (Some [51, 49]) (asc ''double'')))
   \<and> map visible_len
         (add_border (SetBorder (default_chart []) True (Some [51, 49]) (asc ''double''))
            (map styled [[Plain 97, Plain 98, Plain 99], [Sgr [51, 50], Plain 120, Sgr [48]]]))
       = [7, 7, 7, 7]
   \<and> map visible_chars
         (add_border (SetBorder (default_chart []) True (Some [51, 49]) (asc ''double''))
            (map styled [[Plain 97, Plain 98, Plain 99], [Sgr [51, 50], Plain 120, Sgr [48]]]))
       = [[0x2554, 0x2550, 0x2550, 0x2550, 0x2550, 0x2550, 0x2557],
          [0x2551, SP, 97, 98, 99, SP, 0x2551],
          [0x2551, SP, 120, SP, SP, SP, 0x2551],
          [0x255A, 0x2550, 0x2550, 0x2550, 0x2550, 0x2550, 0x255D]]
   \<and> add_border (SetBorder (default_chart []) True (Some [51, 49]) (asc ''double''))
         (map styled [[Plain 97, Plain 98, Plain 99], [Sgr [51, 50], Plain 120, Sgr [48]]]) ! 2
       = [ESC, LBR, 51, 49, LM, 0x2551, ESC, LBR, 48, LM, SP, ESC, LBR, 51, 50, LM, 120,
          ESC, LBR, 48, LM, SP, SP, SP, ESC, LBR, 51, 49, LM, 0x2551, ESC, LBR, 48, LM]"
proof -
  define c where "c = SetBorder (default_chart []) True (Some [51, 49]) (asc ''double'')"
  define tss where "tss = [[Plain 97, Plain 98, Plain 99], [Sgr [51, 50], Plain 120, Sgr [48]]]"
  define out where "out = add_border c (map styled tss)"
  have h1: "border_enabled c" by (simp add: c_def SetBorder_def)
  have h2: "tss \<noteq> []" by (simp add: tss_def)
  have h3: "\<forall>ts\<in>set tss. list_all tok_ok ts" by (simp add: tss_def)
  have h4: "sgr_ok (border_sgr c)" by (simp add: c_def SetBorder_def)
  have m: "Max (set (map visible_len (map styled tss))) = 3"
    by (simp add: tss_def styled_def visible_len_def)
  have vl: "visible_len (styled (tss ! 0)) = 3" "visible_len (styled (tss ! 1)) = 1"
    by (simp_all add: tss_def styled_def visible_len_def)
  have bc: "border_chars c = \<lparr>cs_tl = [0x2554], cs_tr = [0x2557], cs_bl = [0x255A],
      cs_br = [0x255D], cs_h = [0x2550], cs_v = [0x2551]\<rparr>"
    by (simp add: border_chars_def c_def SetBorder_def)
  have bs: "border_sgr c = Some [51, 49]" by (simp add: c_def SetBorder_def)
  have len: "length tss = 2" by (simp add: tss_def)
  note T = border_rectangular [OF h1 h2 h3 h4, unfolded Let_def m bc bs len, folded out_def]
  have r: "\<forall>l\<in>set out. visible_len l = 7"
    using T [THEN conjunct1] by (simp add: m)
  have n: "length out = 4"
    using T [THEN conjunct2, THEN conjunct1] by (simp add: len)
  have t0: "visible_chars (out ! 0) = [0x2554, 0x2550, 0x2550, 0x2550, 0x2550, 0x2550, 0x2557]"
    using T [THEN conjunct2, THEN conjunct2, THEN conjunct1]
    by (simp add: m bc str_times_def replicate_small)
  have si: "\<forall>i<2. out ! Suc i = sgr_wrap (Some [51, 49]) [0x2551] @ [SP] @ styled (tss ! i)
                    @ str_times [SP] (3 - visible_len (styled (tss ! i))) @ [SP]
                    @ sgr_wrap (Some [51, 49]) [0x2551]"
    using T [THEN conjunct2, THEN conjunct2, THEN conjunct2, THEN conjunct1]
    by (simp add: m bc bs len)
  have ti: "\<forall>i<2. visible_chars (out ! Suc i) = [0x2551] @ [SP] @ plain_chars (tss ! i)
                    @ replicate (nat (3 - visible_len (styled (tss ! i)))) SP @ [SP] @ [0x2551]"
    using T [THEN conjunct2, THEN conjunct2, THEN conjunct2, THEN conjunct2, THEN conjunct1]
    by (simp add: m bc len)
  have t3: "visible_chars (out ! 3) = [0x255A, 0x2550, 0x2550, 0x2550, 0x2550, 0x2550, 0x255D]"
    using T [THEN conjunct2, THEN conjunct2, THEN conjunct2, THEN conjunct2, THEN conjunct2]
    by (simp add: m bc len str_times_def replicate_small)
  from ti [rule_format, of 0] have t1: "visible_chars (out ! 1) = [0x2551, SP, 97, 98, 99, SP, 0x2551]"
    using vl by (simp add: tss_def)
  from ti [rule_format, of 1] have t2: "visible_chars (out ! 2) = [0x2551, SP, 120, SP, SP, SP, 0x2551]"
    using vl by (simp add: tss_def replicate_small numeral_2_eq_2 [symmetric])
  from si [rule_format, of 1] have s2: "out ! 2 = [ESC, LBR, 51, 49, LM, 0x2551, ESC, LBR, 48, LM, SP,
          ESC, LBR, 51, 50, LM, 120, ESC, LBR, 48, LM, SP, SP, SP,
          ESC, LBR, 51, 49, LM, 0x2551, ESC, LBR, 48, LM]"
    using vl by (simp add: tss_def replicate_small sgr_wrap_def styled_def str_times_def
        numeral_2_eq_2 [symmetric])
  from length_4 [OF n] obtain a b c' d where o: "out = [a, b, c', d]"
    by blast
  from r o have "map visible_len out = [7, 7, 7, 7]" by simp
  moreover from t0 t1 t2 t3 o have "map visible_chars out =
        [[0x2554, 0x2550, 0x2550, 0x2550, 0x2550, 0x2550, 0x2557],
          [0x2551, SP, 97, 98, 99, SP, 0x2551],
          [0x2551, SP, 120, SP, SP, SP, 0x2551],
          [0x255A, 0x2550, 0x2550, 0x2550, 0x2550, 0x2550, 0x255D]]"
    by simp
  ultimately show ?thesis
    using h1 h2 h3 h4 s2 unfolding out_def c_def tss_def by (simp add: list_all_iff)
qed

text \<open>
  The claim as stated, for every configuration and every list of lines, fails: with the
  border SGR parameter \<open>1m\<close> the frame of the line \<open>a\<close> has visible lengths 6, 7 and 6,
  and with no border SGR a second content line that ends in the unclosed \<open>ESC [ 3\<close>
  gives the visible lengths 7, 7, 3 and 7.
\<close>

theorem border_rectangular_counterexample:
  "border_enabled (SetBorder (default_chart []) True (Some [49, LM]) (asc ''single''))
   \<and> map visible_len
       (add_border (SetBorder (default_chart []) True (Some [49, LM]) (asc ''single''))
          [[97]]) = [6, 7, 6]
   \<and> border_enabled (SetBorder (default_chart []) True None (asc ''single''))
   \<and> map visible_len
       (add_border (SetBorder (default_chart []) True None (asc ''single''))
          [[97, 98, 99], [97, ESC, LBR, 51]]) = [7, 7, 3, 7]"
  by (simp add: SetBorder_def default_chart_def add_border_def border_chars_def asc_def
      sgr_wrap_def str_times_def visible_len_def replicate_small Let_def)

section \<open>The scenario \<open>[100, -100]\<close>\<close>

lemma up10: "[1..10] = [1,2,3,4,5,6,7,8,9,10::int]"
  by (simp add: upto_rec1 [of 1] upto_rec1 [of 2] upto_rec1 [of 3] upto_rec1 [of 4] upto_rec1 [of 5]
      upto_rec1 [of 6] upto_rec1 [of 7] upto_rec1 [of 8] upto_rec1 [of 9] upto_rec1 [of 10])

lemma trunc_loop_plain:
  "ESC \<notin> set s \<Longrightarrow> vis + int (length s) \<le> mc \<Longrightarrow> trunc_loop s vis mc = s"
  by (induction s arbitrary: vis) auto

lemma truncate_plain:
  "ESC \<notin> set s \<Longrightarrow> int (length s) \<le> mc \<Longrightarrow> truncate_visible s mc = s"
  using trunc_loop_plain [of s 0 mc] by (cases s) (auto simp: truncate_visible_def)

lemma scen_fields:
  "clamp_to_100 scen" "show_y_axis scen" "unicode scen" "value_color_cb scen = None"
  "bar_sgr scen = None" "label_sgr scen = None" "axis_sgr scen = None" "title scen = None"
  "max_value scen = None" "y_label_fmt scen = None" "\<not> border_enabled scen"
  "width scen = Some 80" "values_in scen = [NInt 100, NInt (- 100)]"
  by (simp_all add: scen_def default_chart_def)


lemma scen_steps:
  "to_signed_steps_5pct scen (Fin 100) (Fin 100) = Inr 20"
  "to_signed_steps_5pct scen (Fin (- 100)) (Fin 100) = Inr (- 20)"
  using to_steps_eq_denom [of 100 scen] by simp_all

lemma scen_denom: "resolve_denom scen [Fin 100, Fin (- 100)] = Inr (Fin 100)"
  by (simp add: resolve_denom_def scen_fields bindE_def py_max_def)

lemma scen_neg_rows: "neg_rows_of [20, - 20] = 10"
  by (simp add: neg_rows_of_def max_neg_steps_of_def)

lemma scen_y_w: "y_axis_width E scen (Fin 100) False 10 = Inr 6"
  by (simp add: y_axis_width_def scen_fields bindE_def up10 render_y_label_def
      rjust_def str_int_def asc_def)

lemma scen_pos_rows:
  "mapE (pos_row E scen 80 (Fin 100) False 6 [(Fin 100, Fin (- 100), 20, - 20)]) (rev [1..10])
   = Inr (map (\<lambda>l. asc l @ [0x258C])
       ['' 100% '', ''  90% '', ''  80% '', ''  70% '', ''  60% '', ''  50% '', ''  40% '',
        ''  30% '', ''  20% '', ''  10% ''])"
  by (simp add: up10 pos_row_def label_part_def scen_fields bindE_def render_y_label_def
      pos_cell_def clamp_int_def glyph_pos_def pos_table_def style_cell_def sgr_wrap_def
      rjust_def str_int_def asc_def truncate_visible_def)

lemma scen_lower:
  "lower_lines E scen 80 (Fin 100) False 6 [(Fin 100, Fin (- 100), 20, - 20)] 10
   = Inr ((asc ''   0% '' @ [0x2500]) # map (\<lambda>l. asc l @ [0x2590])
       ['' -10% '', '' -20% '', '' -30% '', '' -40% '', '' -50% '', '' -60% '', '' -70% '',
        '' -80% '', '' -90% '', ''-100% ''])"
  by (simp add: up10 lower_lines_def neg_row_def label_part_def scen_fields bindE_def
      render_y_label_def neg_cell_def clamp_int_def glyph_neg_def neg_table_def style_cell_def
      sgr_wrap_def rjust_def str_int_def str_times_def asc_def truncate_visible_def)

lemma scen_content:
  "content_lines E scen [Fin 100, Fin (- 100)]
   = Inr (map (\<lambda>l. asc l @ [0x258C])
            ['' 100% '', ''  90% '', ''  80% '', ''  70% '', ''  60% '', ''  50% '', ''  40% '',
             ''  30% '', ''  20% '', ''  10% '']
          @ [asc ''   0% '' @ [0x2500]]
          @ map (\<lambda>l. asc l @ [0x2590])
            ['' -10% '', '' -20% '', '' -30% '', '' -40% '', '' -50% '', '' -60% '', '' -70% '',
             '' -80% '', '' -90% '', ''-100% ''])"
proof -
  have cols: "term_cols E scen = 80" by (simp add: term_cols_def scen_fields)
  have nr: "neg_rows_of ([20] @ [- 20]) = 10" using scen_neg_rows by simp
  have cs: "zip (take (nat (max 1 (80 - 6))) [Fin 100])
              (zip (take (nat (max 1 (80 - 6))) [Fin (- 100)])
                 (zip (take (nat (max 1 (80 - 6))) [20::int]) (take (nat (max 1 (80 - 6))) [- 20::int])))
            = [(Fin 100, Fin (- 100), 20, - 20)]"
    by simp
  have t: "title_lines scen 80 = []" by (simp add: title_lines_def scen_fields)
  have f: "(max_value scen \<noteq> None \<or> y_label_fmt scen \<noteq> None) = False"
    by (simp add: scen_fields)
  show ?thesis
    unfolding content_lines_def Let_def cols
    by (simp only: scen_denom bindE_def sum.case pack.simps prod.case mapE.simps scen_steps
        scen_neg_rows f scen_y_w cs scen_pos_rows scen_lower t append_Nil append_Cons list.map)
qed

lemma scen_render:
  "render E scen
   = Inr (join_nl (map (\<lambda>l. asc l @ [0x258C])
            ['' 100% '', ''  90% '', ''  80% '', ''  70% '', ''  60% '', ''  50% '', ''  40% '',
             ''  30% '', ''  20% '', ''  10% '']
          @ [asc ''   0% '' @ [0x2500]]
          @ map (\<lambda>l. asc l @ [0x2590])
            ['' -10% '', '' -20% '', '' -30% '', '' -40% '', '' -50% '', '' -60% '', '' -70% '',
             '' -80% '', '' -90% '', ''-100% '']))"
proof -
  have v: "mapE to_float (values_in scen) = Inr [Fin 100, Fin (- 100)]"
    by (simp add: scen_fields bindE_def fl_num)
  have b: "add_border scen ls = ls" for ls
    by (simp add: add_border_def scen_fields)
  show ?thesis
    unfolding render_def v
    by (simp only: bindE_def sum.case scen_content b list.simps if_False)
qed

text \<open>
  Claim C6, as amended. For the values \<open>[100, -100]\<close> under the default configuration
  and a width of 80 columns, the chart is 21 lines: the ten positive rows, each showing
  the left half block (left full, right empty), the top one labelled \<open>100%\<close>; the zero
  axis; and ten negative rows, not one, each showing the right half block (right full,
  left empty), from \<open>-10%\<close> down to \<open>-100%\<close>.
\<close>

theorem render_100_minus_100:
  "render E ((default_chart [NInt 100, NInt (- 100)])\<lparr>width := Some 80\<rparr>)
   = Inr (join_nl (map (\<lambda>l. asc l @ [0x258C])
            ['' 100% '', ''  90% '', ''  80% '', ''  70% '', ''  60% '', ''  50% '', ''  40% '',
             ''  30% '', ''  20% '', ''  10% '']
          @ [asc ''   0% '' @ [0x2500]]
          @ map (\<lambda>l. asc l @ [0x2590])
            ['' -10% '', '' -20% '', '' -30% '', '' -40% '', '' -50% '', '' -60% '', '' -70% '',
             '' -80% '', '' -90% '', ''-100% '']))"
  using scen_render [of E] by (simp only: scen_def)

text \<open>
  The claim as stated fails on the count of negative rows: the two values are the steps
  20 and -20, and the step -20 gives ten negative rows, not one.
\<close>

theorem render_100_minus_100_counterexample:
  "to_signed_steps_5pct ((default_chart [NInt 100, NInt (- 100)])\<lparr>width := Some 80\<rparr>)
      (Fin 100) (Fin 100) = Inr 20
   \<and> to_signed_steps_5pct ((default_chart [NInt 100, NInt (- 100)])\<lparr>width := Some 80\<rparr>)
      (Fin (- 100)) (Fin 100) = Inr (- 20)
   \<and> neg_rows_of ([20] @ [- 20]) = 10
   \<and> neg_rows_of ([20] @ [- 20]) \<noteq> 1"
  using scen_steps scen_neg_rows by (simp add: scen_def)

section \<open>The negative rows of a rendering\<close>

lemma lower_lines_struct:
  assumes "lower_lines E self cols denom forced y_w columns n = Inr low"
  shows "\<exists>axis ns. low = axis # ns
           \<and> mapE (neg_row E self cols denom forced y_w columns) [1..n] = Inr ns
           \<and> int (length ns) = max 0 n"
proof (cases "0 < n")
  case True
  with assms obtain axis ns where "low = axis # ns"
    and m: "mapE (neg_row E self cols denom forced y_w columns) [1..n] = Inr ns"
    by (auto simp: lower_lines_def bindE_def Let_def split: sum.splits)
  moreover from mapE_length [OF m] True have "int (length ns) = max 0 n" by simp
  ultimately show ?thesis by blast
next
  case False
  then have "[1..n] = []" by simp
  with assms False show ?thesis by (auto simp: lower_lines_def Let_def)
qed

lemma content_lines_struct:
  assumes "content_lines E self vals = Inr ls"
  shows "\<exists>denom lst rst y_w columns pos_lines axis ns.
      resolve_denom self vals = Inr denom
    \<and> mapE (\<lambda>v. to_signed_steps_5pct self v denom) (fst (pack vals)) = Inr lst
    \<and> mapE (\<lambda>v. to_signed_steps_5pct self v denom) (snd (pack vals)) = Inr rst
    \<and> ls = title_lines self (term_cols E self) @ pos_lines @ axis # ns
    \<and> length pos_lines = 10
    \<and> mapE (neg_row E self (term_cols E self) denom
              (max_value self \<noteq> None \<or> y_label_fmt self \<noteq> None) y_w columns)
         [1..neg_rows_of (lst @ rst)] = Inr ns
    \<and> int (length ns) = neg_rows_of (lst @ rst)"
proof -
  define forced where "forced = (max_value self \<noteq> None \<or> y_label_fmt self \<noteq> None)"
  define cols where "cols = term_cols E self"
  from assms obtain denom where d: "resolve_denom self vals = Inr denom"
    by (auto simp: content_lines_def bindE_def Let_def split: sum.splits)
  obtain lv rv where pk: "pack vals = (lv, rv)" by (cases "pack vals")
  from assms d pk obtain lst where l: "mapE (\<lambda>v. to_signed_steps_5pct self v denom) lv = Inr lst"
    by (auto simp: content_lines_def bindE_def Let_def split: sum.splits)
  from assms d pk l obtain rst where r: "mapE (\<lambda>v. to_signed_steps_5pct self v denom) rv = Inr rst"
    by (auto simp: content_lines_def bindE_def Let_def split: sum.splits)
  define N where "N = neg_rows_of (lst @ rst)"
  from assms d pk l r obtain y_w where y: "y_axis_width E self denom forced N = Inr y_w"
    by (auto simp: content_lines_def bindE_def Let_def forced_def N_def split: sum.splits)
  define columns where "columns = zip (take (nat (max 1 (cols - y_w))) lv)
                            (zip (take (nat (max 1 (cols - y_w))) rv)
                               (zip (take (nat (max 1 (cols - y_w))) lst)
                                    (take (nat (max 1 (cols - y_w))) rst)))"
  from assms d pk l r y obtain pos_lines low where
    p: "mapE (pos_row E self cols denom forced y_w columns) (rev [1..10]) = Inr pos_lines"
    and lw: "lower_lines E self cols denom forced y_w columns N = Inr low"
    and ls: "ls = title_lines self cols @ pos_lines @ low"
    by (auto simp: content_lines_def bindE_def Let_def forced_def N_def cols_def columns_def
        split: sum.splits)
  from mapE_length [OF p] have pl: "length pos_lines = 10" by simp
  from lower_lines_struct [OF lw] obtain axis ns where
    low: "low = axis # ns"
    and ns: "mapE (neg_row E self cols denom forced y_w columns) [1..N] = Inr ns"
    and nl: "int (length ns) = max 0 N" by blast
  from nl neg_rows_nonneg [of "lst @ rst"] have nn: "int (length ns) = N" by (simp add: N_def)
  show ?thesis
  proof (intro exI conjI)
    show "resolve_denom self vals = Inr denom" by (rule d)
    show "mapE (\<lambda>v. to_signed_steps_5pct self v denom) (fst (pack vals)) = Inr lst"
      using l pk by simp
    show "mapE (\<lambda>v. to_signed_steps_5pct self v denom) (snd (pack vals)) = Inr rst"
      using r pk by simp
    show "ls = title_lines self (term_cols E self) @ pos_lines @ axis # ns"
      using ls low by (simp add: cols_def)
    show "length pos_lines = 10" by (rule pl)
    show "mapE (neg_row E self (term_cols E self) denom
              (max_value self \<noteq> None \<or> y_label_fmt self \<noteq> None) y_w columns)
         [1..neg_rows_of (lst @ rst)] = Inr ns"
      using ns unfolding cols_def forced_def N_def .
    show "int (length ns) = neg_rows_of (lst @ rst)"
      using nn unfolding N_def .
  qed
qed

lemma render_struct:
  assumes "render E self = Inr out" "values_in self \<noteq> []"
  shows "\<exists>vals ls. mapE to_float (values_in self) = Inr vals
           \<and> content_lines E self vals = Inr ls \<and> out = join_nl (add_border self ls)"
proof -
  from assms(1) obtain vals where v: "mapE to_float (values_in self) = Inr vals"
    by (auto simp: render_def bindE_def split: sum.splits)
  from mapE_length [OF v] assms(2) have "vals \<noteq> []" by auto
  with assms(1) v show ?thesis
    by (auto simp: render_def bindE_def split: sum.splits)
qed

text \<open>
  Claim C7. A rendering that returns its lines consists of the title lines, the ten
  positive rows, the axis (or baseline) line and the negative rows; the negative rows
  are the rows \<open>1..N\<close>, where \<open>N\<close> is the count computed from the steps of all the packed
  values, and the rendered text is these lines, bordered and joined. \<open>N\<close> is
  \<open>ceil(M / 2)\<close>, where \<open>M\<close> is the largest magnitude among the negative steps, and \<open>0\<close>
  when no step is negative. A value of \<open>-83%\<close> of the denominator is step \<open>-17\<close>, and a
  least step of \<open>-17\<close> gives 9 rows.
\<close>

theorem neg_rows_spec:
  "(content_lines E self vals = Inr ls \<longrightarrow>
      (\<exists>denom lst rst y_w columns pos_lines axis ns.
          resolve_denom self vals = Inr denom
        \<and> mapE (\<lambda>v. to_signed_steps_5pct self v denom) (fst (pack vals)) = Inr lst
        \<and> mapE (\<lambda>v. to_signed_steps_5pct self v denom) (snd (pack vals)) = Inr rst
        \<and> ls = title_lines self (term_cols E self) @ pos_lines @ axis # ns
        \<and> length pos_lines = 10
        \<and> mapE (neg_row E self (term_cols E self) denom
                  (max_value self \<noteq> None \<or> y_label_fmt self \<noteq> None) y_w columns)
             [1..neg_rows_of (lst @ rst)] = Inr ns
        \<and> int (length ns) = neg_rows_of (lst @ rst)))
   \<and> (render E self = Inr out \<and> values_in self \<noteq> [] \<longrightarrow>
        (\<exists>vals ls. mapE to_float (values_in self) = Inr vals
           \<and> content_lines E self vals = Inr ls \<and> out = join_nl (add_border self ls)))
   \<and> ((\<exists>s\<in>set steps. s < 0) \<longrightarrow>
        neg_rows_of steps = \<lceil>(of_int (Max (abs ` {s \<in> set steps. s < 0})) :: rat) / 2\<rceil>)
   \<and> ((\<forall>s\<in>set steps. 0 \<le> s) \<longrightarrow> neg_rows_of steps = 0)
   \<and> to_signed_steps_5pct self (Fin (- 83)) (Fin 100) = Inr (- 17)
   \<and> (- 17 \<in> set steps \<and> (\<forall>s\<in>set steps. - 17 \<le> s) \<longrightarrow> neg_rows_of steps = 9)"
proof -
  have a: "(\<exists>s\<in>set steps. s < 0) \<longrightarrow>
      neg_rows_of steps = \<lceil>(of_int (Max (abs ` {s \<in> set steps. s < 0})) :: rat) / 2\<rceil>"
    using max_neg_steps_some [of steps] by (simp add: neg_rows_of_def)
  have b: "(\<forall>s\<in>set steps. 0 \<le> s) \<longrightarrow> neg_rows_of steps = 0"
    using max_neg_steps_none [of steps] by (simp add: neg_rows_of_def)
  have d: "- 17 \<in> set steps \<and> (\<forall>s\<in>set steps. - 17 \<le> s) \<longrightarrow> neg_rows_of steps = 9"
  proof
    assume h: "- 17 \<in> set steps \<and> (\<forall>s\<in>set steps. - 17 \<le> s)"
    then have "max_neg_steps_of steps = - (- 17)"
      by (intro max_neg_steps_min) simp_all
    then show "neg_rows_of steps = 9"
      by (simp add: neg_rows_of_def ceiling_eq_iff)
  qed
  from a b d to_steps_m83 [of self] content_lines_struct [of E self vals ls]
    render_struct [of E self out]
  show ?thesis by blast
qed

theorem neg_rows_spec_witness:
  "(\<exists>L pos_lines axis ns.
       content_lines \<lparr>term_columns = 80, str_mod = (\<lambda>f v. Inl TypeError)\<rparr> scen
         [Fin 100, Fin (- 100)] = Inr L
     \<and> L = pos_lines @ axis # ns \<and> length pos_lines = 10 \<and> length ns = 10)
   \<and> resolve_denom scen [Fin 100, Fin (- 100)] = Inr (Fin 100)
   \<and> to_signed_steps_5pct scen (Fin 100) (Fin 100) = Inr 20
   \<and> to_signed_steps_5pct scen (Fin (- 100)) (Fin 100) = Inr (- 20)
   \<and> neg_rows_of ([20] @ [- 20]) = 10
   \<and> values_in scen \<noteq> []
   \<and> (\<exists>out L. render \<lparr>term_columns = 80, str_mod = (\<lambda>f v. Inl TypeError)\<rparr> scen = Inr out
        \<and> content_lines \<lparr>term_columns = 80, str_mod = (\<lambda>f v. Inl TypeError)\<rparr> scen
             [Fin 100, Fin (- 100)] = Inr L
        \<and> out = join_nl (add_border scen L))
   \<and> list_ex (\<lambda>s. s < 0) [4, - 17, - 3 :: int]
   \<and> - 17 \<in> set [4, - 17, - 3 :: int] \<and> list_all (\<lambda>s. - 17 \<le> s) [4, - 17, - 3 :: int]
   \<and> neg_rows_of [4, - 17, - 3] = 9
   \<and> list_all (\<lambda>s. 0 \<le> s) [4, 0 :: int] \<and> neg_rows_of [4, 0] = 0"
proof -
  define E :: env where "E = \<lparr>term_columns = 80, str_mod = (\<lambda>f v. Inl TypeError)\<rparr>"
  define vals where "vals = [Fin 100, Fin (- 100)]"
  obtain L where L: "content_lines E scen vals = Inr L"
    using scen_content [of E] unfolding vals_def by blast
  from neg_rows_spec [of E scen vals L] L obtain denom lst rst pos_lines axis ns where
    d: "resolve_denom scen vals = Inr denom"
    and l: "mapE (\<lambda>v. to_signed_steps_5pct scen v denom) (fst (pack vals)) = Inr lst"
    and r: "mapE (\<lambda>v. to_signed_steps_5pct scen v denom) (snd (pack vals)) = Inr rst"
    and ls: "L = title_lines scen (term_cols E scen) @ pos_lines @ axis # ns"
    and pl: "length pos_lines = 10"
    and nl: "int (length ns) = neg_rows_of (lst @ rst)"
    by blast
  from d have denom: "denom = Fin 100" by (simp add: vals_def scen_denom)
  from l have lst: "lst = [20]" by (simp add: vals_def denom scen_steps bindE_def)
  from r have rst: "rst = [- 20]" by (simp add: vals_def denom scen_steps bindE_def)
  have nr: "neg_rows_of ([20] @ [- 20]) = 10" using scen_neg_rows by simp
  from nl have "length ns = 10" by (simp add: lst rst scen_neg_rows)
  moreover have "title_lines scen (term_cols E scen) = []"
    by (simp add: title_lines_def scen_fields)
  ultimately have w1: "\<exists>L pos_lines axis ns. content_lines E scen vals = Inr L
     \<and> L = pos_lines @ axis # ns \<and> length pos_lines = 10 \<and> length ns = 10"
    using L ls pl by auto
  have v: "values_in scen \<noteq> []" by (simp add: scen_fields)
  have tf: "mapE to_float (values_in scen) = Inr vals"
    by (simp add: scen_fields bindE_def fl_num vals_def)
  obtain out where out: "render E scen = Inr out" using scen_render [of E] by blast
  from neg_rows_spec [of E scen _ _ out] out v obtain vals' L' where
    "mapE to_float (values_in scen) = Inr vals'" "content_lines E scen vals' = Inr L'"
    "out = join_nl (add_border scen L')" by blast
  with tf out have w2: "\<exists>out L. render E scen = Inr out \<and> content_lines E scen vals = Inr L
        \<and> out = join_nl (add_border scen L)" by auto
  have h1: "- 17 \<in> set [4, - 17, - 3 :: int] \<and> (\<forall>s\<in>set [4, - 17, - 3 :: int]. - 17 \<le> s)"
    by simp
  have n: "neg_rows_of [4, - 17, - 3] = 9"
    using neg_rows_spec [of _ _ _ _ _ "[4, - 17, - 3]"] h1 by blast
  have h2: "\<forall>s\<in>set [4, 0 :: int]. 0 \<le> s"
    by simp
  have z: "neg_rows_of [4, 0] = 0"
    using neg_rows_spec [of _ _ _ _ _ "[4, 0]"] h2 by blast
  from w1 w2 v n z nr scen_denom scen_steps show ?thesis
    unfolding E_def vals_def by simp
qed

end
